theory Spec2Isabelle
  imports Complex_Main
begin

section \<open>Dense vectors and matrices\<close>

text \<open>
  The notebooks compute on numpy arrays of floats. A one-dimensional array is a list of
  reals, a two-dimensional array the list of its rows. The two IPFP solvers of the first
  part (\<^verbatim>\<open>matrixIPFP\<close>, \<^verbatim>\<open>logdomainIPFP\<close>), the knapsack oracle and the Lemke-Howson
  solver are modelled in exact real arithmetic. The pivoting primitive, the
  column-generation loop and the IPFP with the log-sum-exp trick take the rounding of the
  arithmetic as a parameter, so that both the exact run and the run in binary64 are
  instances. Overflow to \<open>inf\<close> and \<open>nan\<close> are outside the model, and a division is only
  meaningful where the divisor is not zero (numpy returns \<open>inf\<close> there, HOL returns \<open>0\<close>);
  the theorems below assume inputs for which no divisor vanishes.
\<close>

type_synonym vec = "real list"
type_synonym mat = "real list list"

subsection \<open>Rounding\<close>

text \<open>
  A floating-point operation returns the exact result, rounded. A rounding maps the
  exact result to the number that is stored.
\<close>

type_synonym rounding = "real \<Rightarrow> real"

text \<open>The arithmetic of the real numbers: nothing is rounded.\<close>

definition exact :: rounding where
  "exact x = x"

text \<open>The nearest integer, a tie going to the even one.\<close>

definition rne :: "real \<Rightarrow> int" where
  "rne x = (let f = \<lfloor>x\<rfloor>; d = x - of_int f
            in if d < 1/2 then f else if 1/2 < d then f + 1 else if even f then f else f + 1)"

text \<open>
  The arithmetic of numpy's \<^verbatim>\<open>float64\<close>: the nearest number with a significand of 53
  bits, a tie going to the even significand. The range of the exponent is not bounded
  here: there is no overflow and there are no subnormal numbers.
\<close>

definition float64 :: rounding where
  "float64 x = (if x = 0 then 0
                else let e = \<lfloor>log 2 \<bar>x\<bar>\<rfloor> - 52 in of_int (rne (x / 2 powi e)) * 2 powi e)"

text \<open>
  \<^verbatim>\<open>a.sum()\<close> and \<^verbatim>\<open>a.dot(b)\<close> on short one-dimensional arrays: the terms are added
  from left to right, each sum and each product rounded.
\<close>

definition fsum :: "rounding \<Rightarrow> vec \<Rightarrow> real" where
  "fsum rnd xs = (case xs of [] \<Rightarrow> 0 | x # ys \<Rightarrow> foldl (\<lambda>s t. rnd (s + t)) x ys)"

definition fdot :: "rounding \<Rightarrow> vec \<Rightarrow> vec \<Rightarrow> real" where
  "fdot rnd a b = fsum rnd (map2 (\<lambda>x y. rnd (x * y)) a b)"

text \<open>Exceptions of the Python runtime (and the spec's own error class) as values.\<close>

datatype py_error =
    ValueError
  | UnboundLocalError
  | IndexError
  | ZeroDivisionError
  | LinAlgError
  | UnboundedError

text \<open>\<^verbatim>\<open>a @ b\<close> on two one-dimensional arrays of the same length.\<close>

definition dot :: "vec \<Rightarrow> vec \<Rightarrow> real" where
  "dot a b = sum_list (map2 (*) a b)"

text \<open>\<^verbatim>\<open>M @ v\<close>: a matrix times a vector.\<close>

definition mat_vec :: "mat \<Rightarrow> vec \<Rightarrow> vec" where
  "mat_vec M v = map (\<lambda>row. dot row v) M"

text \<open>\<^verbatim>\<open>M[:, j]\<close>: column \<open>j\<close> of a matrix.\<close>

definition column :: "mat \<Rightarrow> nat \<Rightarrow> vec" where
  "column M j = map (\<lambda>row. row ! j) M"

text \<open>\<^verbatim>\<open>a.T @ M\<close> for a matrix with \<open>nc\<close> columns: a vector times a matrix.\<close>

definition vec_mat :: "nat \<Rightarrow> vec \<Rightarrow> mat \<Rightarrow> vec" where
  "vec_mat nc a M = map (\<lambda>j. dot a (column M j)) [0..<nc]"

text \<open>Elementwise \<^verbatim>\<open>a * b\<close> and \<^verbatim>\<open>a / b\<close> on arrays of the same shape.\<close>

definition vmul :: "vec \<Rightarrow> vec \<Rightarrow> vec" where
  "vmul a b = map2 (*) a b"

definition vdiv :: "vec \<Rightarrow> vec \<Rightarrow> vec" where
  "vdiv a b = map2 (/) a b"

text \<open>\<^verbatim>\<open>M.sum(axis=1)\<close> and \<^verbatim>\<open>M.sum(axis=0)\<close>.\<close>

definition row_sums :: "mat \<Rightarrow> vec" where
  "row_sums M = map sum_list M"

definition col_sums :: "nat \<Rightarrow> mat \<Rightarrow> vec" where
  "col_sums nc M = map (\<lambda>j. sum_list (column M j)) [0..<nc]"

section \<open>Entropic optimal transport: the IPFP family\<close>

text \<open>
  \<^verbatim>\<open>OTProblem\<close> comes from the module \<^verbatim>\<open>objects_D1\<close>; the solvers read its fields
  \<^verbatim>\<open>\<Phi>_a\<close> (reshaped to \<open>nbx\<close> rows), \<^verbatim>\<open>n_x\<close>, \<^verbatim>\<open>m_y\<close>, \<^verbatim>\<open>nbx\<close> and \<^verbatim>\<open>nby\<close>.
\<close>

record OTProblem =
  Phi_x_y :: mat
  n_x :: vec
  m_y :: vec
  nbx :: nat
  nby :: nat

text \<open>The shapes the class maintains, with at least one row and one column.\<close>

definition shaped :: "OTProblem \<Rightarrow> bool" where
  "shaped P \<longleftrightarrow>
     0 < nbx P \<and> 0 < nby P \<and> length (Phi_x_y P) = nbx P \<and>
     list_all (\<lambda>row. length row = nby P) (Phi_x_y P) \<and>
     length (n_x P) = nbx P \<and> length (m_y P) = nby P"

text \<open>Strictly positive marginals.\<close>

definition positive :: "vec \<Rightarrow> bool" where
  "positive a = list_all (\<lambda>t. 0 < t) a"

text \<open>What every variant returns (the elapsed time is left out).\<close>

record ipfp_result =
  mu_x_y :: mat
  u_x :: vec
  v_y :: vec
  valobs :: real
  valtot :: real
  ite_out :: nat
  label :: string

text \<open>
  \<^verbatim>\<open>scipy.stats.entropy\<close> normalises its argument to sum one and returns
  \<open>- \<Sum> p log p\<close>, with \<open>0 log 0 = 0\<close>.
\<close>

definition entr :: "real \<Rightarrow> real" where
  "entr p = (if 0 < p then - p * ln p else 0)"

definition entropy :: "vec \<Rightarrow> real" where
  "entropy pk = (let s = sum_list pk in sum_list (map (\<lambda>p. entr (p / s)) pk))"

definition sum_xlogx :: "mat \<Rightarrow> real" where
  "sum_xlogx a = (let s = sum_list (concat a) in s * ln s - s * entropy (concat a))"

subsection \<open>Matrix IPFP\<close>

text \<open>
  The loop state of \<^verbatim>\<open>matrixIPFP\<close>. \<^verbatim>\<open>A_x\<close> is first bound inside the loop, so it
  is \<open>None\<close> until the body has run.
\<close>

record mstate =
  mA :: "vec option"
  mB :: vec
  merror :: real
  mite :: nat

definition K_x_y :: "real \<Rightarrow> mat \<Rightarrow> mat" where
  "K_x_y \<sigma> Phi = map (map (\<lambda>t. exp (t / \<sigma>))) Phi"

text \<open>
  One pass of the loop body:
  \<^verbatim>\<open>
    A_x = self.n_x / (K_x_y @ B_y)
    KA_y = (A_x.T @ K_x_y)
    error = (abs(KA_y * B_y / self.m_y)-1).max()
    B_y = self.m_y / KA_y
    ite = ite + 1
  \<close>
\<close>

definition matrix_body :: "mat \<Rightarrow> OTProblem \<Rightarrow> mstate \<Rightarrow> mstate" where
  "matrix_body K P s =
     (let A = vdiv (n_x P) (mat_vec K (mB s));
          KA = vec_mat (nby P) A K
      in \<lparr> mA = Some A,
           mB = vdiv (m_y P) KA,
           merror = Max (set (map (\<lambda>t. \<bar>t\<bar> - 1) (vdiv (vmul KA (mB s)) (m_y P)))),
           mite = mite s + 1 \<rparr>)"

function matrix_loop :: "mat \<Rightarrow> OTProblem \<Rightarrow> real \<Rightarrow> nat \<Rightarrow> mstate \<Rightarrow> mstate" where
  "matrix_loop K P tol maxite s =
     (if merror s > tol \<and> mite s < maxite
      then matrix_loop K P tol maxite (matrix_body K P s)
      else s)"
  by pat_completeness auto
termination
  by (relation "measure (\<lambda>(K, P, tol, maxite, s). maxite - mite s)")
     (auto simp: matrix_body_def Let_def)

declare matrix_loop.simps [simp del]

definition matrix_init :: "OTProblem \<Rightarrow> real \<Rightarrow> mstate" where
  "matrix_init P tol =
     \<lparr> mA = None, mB = replicate (nby P) 1, merror = tol + 1, mite = 0 \<rparr>"

text \<open>\<^verbatim>\<open>K_x_y * A_x.reshape((-1,1)) * B_y.reshape((1,-1))\<close>.\<close>

definition scale :: "mat \<Rightarrow> vec \<Rightarrow> vec \<Rightarrow> mat" where
  "scale K A B = map2 (\<lambda>row a. map2 (\<lambda>k b. k * a * b) row B) K A"

text \<open>
  \<^verbatim>\<open>matrixIPFP(self, \<sigma>, tol, maxite)\<close>. With an iteration cap of zero the body never
  runs and reading \<^verbatim>\<open>A_x\<close> after the loop raises; with no column the first
  \<^verbatim>\<open>.max()\<close> is over an empty array and raises.
\<close>

definition matrixIPFP :: "OTProblem \<Rightarrow> real \<Rightarrow> real \<Rightarrow> nat \<Rightarrow> py_error + ipfp_result" where
  "matrixIPFP P \<sigma> tol maxite =
     (if maxite = 0 then Inl UnboundLocalError
      else if nby P = 0 then Inl ValueError
      else
        let K = K_x_y \<sigma> (Phi_x_y P);
            s = matrix_loop K P tol maxite (matrix_init P tol)
        in case mA s of
             None \<Rightarrow> Inl UnboundLocalError
           | Some A \<Rightarrow>
               let mu = scale K A (mB s);
                   vo = dot (concat (Phi_x_y P)) (concat mu)
               in Inr \<lparr> mu_x_y = mu,
                        u_x = map (\<lambda>a. - \<sigma> * ln a) A,
                        v_y = map (\<lambda>b. - \<sigma> * ln b) (mB s),
                        valobs = vo,
                        valtot = vo - \<sigma> * sum_xlogx mu,
                        ite_out = mite s,
                        label = ''matrix IPFP'' \<rparr>)"

subsection \<open>Log-domain IPFP\<close>

text \<open>The loop state of \<^verbatim>\<open>logdomainIPFP\<close>; \<^verbatim>\<open>u_x\<close> is first bound inside the loop.\<close>

record lstate =
  lu :: "vec option"
  lv :: vec
  lerror :: real
  lite :: nat

text \<open>\<^verbatim>\<open>- \<sigma> * np.log(a)\<close>, the vectors \<open>\<lambda>\<close> and \<open>\<zeta>\<close> of the log-domain variants.\<close>

definition neg_log :: "real \<Rightarrow> vec \<Rightarrow> vec" where
  "neg_log \<sigma> a = map (\<lambda>t. - \<sigma> * ln t) a"

text \<open>
  One pass of the loop body:
  \<^verbatim>\<open>
    u_x = \<lambda>_x + \<sigma> * np.log( (np.exp((\<Phi>_x_y - v_y.reshape((1,-1)))/\<sigma>)).sum( axis=1) )
    KA_y = (np.exp((\<Phi>_x_y -u_x.reshape((-1,1))) / \<sigma>)).sum(axis=0)
    error = np.max(np.abs(KA_y * np.exp(-v_y / \<sigma>) / self.m_y - 1))
    v_y = \<zeta>_y + \<sigma> * np.log(KA_y)
    ite = ite + 1
  \<close>
\<close>

definition log_body :: "real \<Rightarrow> OTProblem \<Rightarrow> lstate \<Rightarrow> lstate" where
  "log_body \<sigma> P s =
     (let u = map2 (\<lambda>l row. l + \<sigma> * ln (sum_list (map2 (\<lambda>phi v. exp ((phi - v) / \<sigma>)) row (lv s))))
                (neg_log \<sigma> (n_x P)) (Phi_x_y P);
          KA = map (\<lambda>y. sum_list (map2 (\<lambda>row ux. exp ((row ! y - ux) / \<sigma>)) (Phi_x_y P) u))
                [0..<nby P]
      in \<lparr> lu = Some u,
           lv = map2 (\<lambda>z ka. z + \<sigma> * ln ka) (neg_log \<sigma> (m_y P)) KA,
           lerror = Max (set (map (\<lambda>t. \<bar>t - 1\<bar>)
                      (vdiv (vmul KA (map (\<lambda>v. exp (- v / \<sigma>)) (lv s))) (m_y P)))),
           lite = lite s + 1 \<rparr>)"

function log_loop :: "real \<Rightarrow> OTProblem \<Rightarrow> real \<Rightarrow> nat \<Rightarrow> lstate \<Rightarrow> lstate" where
  "log_loop \<sigma> P tol maxite s =
     (if lerror s > tol \<and> lite s < maxite
      then log_loop \<sigma> P tol maxite (log_body \<sigma> P s)
      else s)"
  by pat_completeness auto
termination
  by (relation "measure (\<lambda>(\<sigma>, P, tol, maxite, s). maxite - lite s)")
     (auto simp: log_body_def Let_def)

declare log_loop.simps [simp del]

definition log_init :: "OTProblem \<Rightarrow> real \<Rightarrow> lstate" where
  "log_init P tol =
     \<lparr> lu = None, lv = replicate (nby P) 0, lerror = tol + 1, lite = 0 \<rparr>"

text \<open>\<^verbatim>\<open>np.exp((\<Phi>_x_y - u_x.reshape((-1,1)) - v_y.reshape((1,-1)))/\<sigma>)\<close>.\<close>

definition gibbs :: "real \<Rightarrow> mat \<Rightarrow> vec \<Rightarrow> vec \<Rightarrow> mat" where
  "gibbs \<sigma> Phi u v = map2 (\<lambda>row ux. map2 (\<lambda>phi vy. exp ((phi - ux - vy) / \<sigma>)) row v) Phi u"

definition log_result :: "real \<Rightarrow> OTProblem \<Rightarrow> vec \<Rightarrow> vec \<Rightarrow> nat \<Rightarrow> string \<Rightarrow> ipfp_result" where
  "log_result \<sigma> P u v n name =
     (let mu = gibbs \<sigma> (Phi_x_y P) u v;
          vo = dot (concat (Phi_x_y P)) (concat mu)
      in \<lparr> mu_x_y = mu, u_x = u, v_y = v, valobs = vo,
           valtot = vo - \<sigma> * sum_xlogx mu, ite_out = n, label = name \<rparr>)"

definition logdomainIPFP :: "OTProblem \<Rightarrow> real \<Rightarrow> real \<Rightarrow> nat \<Rightarrow> py_error + ipfp_result" where
  "logdomainIPFP P \<sigma> tol maxite =
     (if maxite = 0 then Inl UnboundLocalError
      else if nby P = 0 then Inl ValueError
      else
        let s = log_loop \<sigma> P tol maxite (log_init P tol)
        in case lu s of
             None \<Rightarrow> Inl UnboundLocalError
           | Some u \<Rightarrow> Inr (log_result \<sigma> P u (lv s) (lite s) ''log-domain IPFP''))"

subsection \<open>Log-domain IPFP with the log-sum-exp trick\<close>

text \<open>
  This variant takes the rounding \<open>rnd\<close> of the arithmetic as its first argument: every
  difference, sum, product and quotient is rounded, and so are the values of
  \<^verbatim>\<open>np.exp\<close> and \<^verbatim>\<open>np.log\<close> (taken as correctly rounded). The maxima and the absolute
  value are exact in any arithmetic.
\<close>

text \<open>\<^verbatim>\<open>\<lambda>_x,\<zeta>_y = - \<sigma> * np.log(self.n_x), - \<sigma> * np.log(self.m_y)\<close>.\<close>

definition lse_neg_log :: "rounding \<Rightarrow> real \<Rightarrow> vec \<Rightarrow> vec" where
  "lse_neg_log rnd \<sigma> a = map (\<lambda>t. rnd (- \<sigma> * rnd (ln t))) a"

text \<open>\<^verbatim>\<open>vstar_x = (\<Phi>_x_y - v_y.reshape((1,-1))).max( axis = 1)\<close>.\<close>

definition vstar_x :: "rounding \<Rightarrow> OTProblem \<Rightarrow> vec \<Rightarrow> vec" where
  "vstar_x rnd P v = map (\<lambda>row. Max (set (map2 (\<lambda>phi vy. rnd (phi - vy)) row v))) (Phi_x_y P)"

text \<open>
  The arguments of the first \<^verbatim>\<open>np.exp\<close> of the body, row by row:
  \<^verbatim>\<open>(\<Phi>_x_y - vstar_x.reshape((-1,1)) - v_y.reshape((1,-1)))/\<sigma>\<close>. The maximum is
  subtracted first, then \<^verbatim>\<open>v_y\<close>.
\<close>

definition row_args :: "rounding \<Rightarrow> real \<Rightarrow> OTProblem \<Rightarrow> vec \<Rightarrow> mat" where
  "row_args rnd \<sigma> P v =
     map2 (\<lambda>row vs. map2 (\<lambda>phi vy. rnd (rnd (rnd (phi - vs) - vy) / \<sigma>)) row v)
       (Phi_x_y P) (vstar_x rnd P v)"

text \<open>\<^verbatim>\<open>(np.exp(a)).sum(axis = ...)\<close> along one row or one column of arguments.\<close>

definition sum_exp :: "rounding \<Rightarrow> vec \<Rightarrow> real" where
  "sum_exp rnd args = fsum rnd (map (\<lambda>a. rnd (exp a)) args)"

text \<open>
  \<^verbatim>\<open>u_x = \<lambda>_x + vstar_x + \<sigma> * np.log( (np.exp(...)).sum( axis=1) )\<close>.
\<close>

definition lse_u :: "rounding \<Rightarrow> real \<Rightarrow> OTProblem \<Rightarrow> vec \<Rightarrow> vec" where
  "lse_u rnd \<sigma> P v =
     map2 (\<lambda>(l, vs) args. rnd (rnd (l + vs) + rnd (\<sigma> * rnd (ln (sum_exp rnd args)))))
       (zip (lse_neg_log rnd \<sigma> (n_x P)) (vstar_x rnd P v)) (row_args rnd \<sigma> P v)"

text \<open>\<^verbatim>\<open>ustar_y = (\<Phi>_x_y - u_x.reshape((-1,1)) ).max( axis = 0)\<close>.\<close>

definition ustar_y :: "rounding \<Rightarrow> OTProblem \<Rightarrow> vec \<Rightarrow> vec" where
  "ustar_y rnd P u =
     map (\<lambda>y. Max (set (map2 (\<lambda>row ux. rnd (row ! y - ux)) (Phi_x_y P) u))) [0..<nby P]"

text \<open>
  The arguments of the second \<^verbatim>\<open>np.exp\<close>, column by column:
  \<^verbatim>\<open>(\<Phi>_x_y -u_x.reshape((-1,1)) - ustar_y.reshape((1,-1)) ) / \<sigma>\<close>.
\<close>

definition col_args :: "rounding \<Rightarrow> real \<Rightarrow> OTProblem \<Rightarrow> vec \<Rightarrow> mat" where
  "col_args rnd \<sigma> P u =
     map2 (\<lambda>y us. map2 (\<lambda>row ux. rnd (rnd (rnd (row ! y - ux) - us) / \<sigma>)) (Phi_x_y P) u)
       [0..<nby P] (ustar_y rnd P u)"

text \<open>The arguments of the third \<^verbatim>\<open>np.exp\<close>, in the residual: \<^verbatim>\<open>(ustar_y-v_y) / \<sigma>\<close>.\<close>

definition err_args :: "rounding \<Rightarrow> real \<Rightarrow> OTProblem \<Rightarrow> vec \<Rightarrow> vec \<Rightarrow> vec" where
  "err_args rnd \<sigma> P u v = map2 (\<lambda>us vy. rnd (rnd (us - vy) / \<sigma>)) (ustar_y rnd P u) v"

text \<open>
  The arguments handed to \<^verbatim>\<open>np.exp\<close> during one pass of the body, from state \<open>v\<close>:
  those inside the two log-sum-exps, which are shifted by a maximum, and all of them.
\<close>

definition lse_shifted_args :: "rounding \<Rightarrow> real \<Rightarrow> OTProblem \<Rightarrow> vec \<Rightarrow> real list" where
  "lse_shifted_args rnd \<sigma> P v =
     (let u = lse_u rnd \<sigma> P v
      in concat (row_args rnd \<sigma> P v) @ concat (col_args rnd \<sigma> P u))"

definition lse_exp_args :: "rounding \<Rightarrow> real \<Rightarrow> OTProblem \<Rightarrow> vec \<Rightarrow> real list" where
  "lse_exp_args rnd \<sigma> P v =
     lse_shifted_args rnd \<sigma> P v @ err_args rnd \<sigma> P (lse_u rnd \<sigma> P v) v"

text \<open>
  One pass of the loop body:
  \<^verbatim>\<open>
    vstar_x = ...
    u_x = ...
    ustar_y = ...
    KA_y = (np.exp((\<Phi>_x_y -u_x.reshape((-1,1)) - ustar_y.reshape((1,-1)) ) / \<sigma>)).sum(axis=0)
    error = np.max(np.abs(KA_y * np.exp( (ustar_y-v_y) / \<sigma>) / self.m_y - 1))
    v_y = \<zeta>_y + ustar_y+ \<sigma> * np.log(KA_y)
    ite = ite + 1
  \<close>
\<close>

definition lse_body :: "rounding \<Rightarrow> real \<Rightarrow> OTProblem \<Rightarrow> lstate \<Rightarrow> lstate" where
  "lse_body rnd \<sigma> P s =
     (let u = lse_u rnd \<sigma> P (lv s);
          KA = map (sum_exp rnd) (col_args rnd \<sigma> P u)
      in \<lparr> lu = Some u,
           lv = map2 (\<lambda>(z, us) ka. rnd (rnd (z + us) + rnd (\<sigma> * rnd (ln ka))))
                  (zip (lse_neg_log rnd \<sigma> (m_y P)) (ustar_y rnd P u)) KA,
           lerror = Max (set (map2 (\<lambda>t m. \<bar>rnd (rnd (t / m) - 1)\<bar>)
                      (map2 (\<lambda>ka e. rnd (ka * rnd (exp e))) KA (err_args rnd \<sigma> P u (lv s)))
                      (m_y P))),
           lite = lite s + 1 \<rparr>)"

function lse_loop :: "rounding \<Rightarrow> real \<Rightarrow> OTProblem \<Rightarrow> real \<Rightarrow> nat \<Rightarrow> lstate \<Rightarrow> lstate" where
  "lse_loop rnd \<sigma> P tol maxite s =
     (if lerror s > tol \<and> lite s < maxite
      then lse_loop rnd \<sigma> P tol maxite (lse_body rnd \<sigma> P s)
      else s)"
  by pat_completeness auto
termination
  by (relation "measure (\<lambda>(rnd, \<sigma>, P, tol, maxite, s). maxite - lite s)")
     (auto simp: lse_body_def Let_def)

declare lse_loop.simps [simp del]

text \<open>
  The arguments handed to \<^verbatim>\<open>np.exp\<close> over the whole run of the loop, pass after pass;
  \<open>args\<close> says which arguments of a pass are recorded.
\<close>

function lse_trace ::
    "(rounding \<Rightarrow> real \<Rightarrow> OTProblem \<Rightarrow> vec \<Rightarrow> real list) \<Rightarrow>
     rounding \<Rightarrow> real \<Rightarrow> OTProblem \<Rightarrow> real \<Rightarrow> nat \<Rightarrow> lstate \<Rightarrow> real list" where
  "lse_trace args rnd \<sigma> P tol maxite s =
     (if lerror s > tol \<and> lite s < maxite
      then args rnd \<sigma> P (lv s) @ lse_trace args rnd \<sigma> P tol maxite (lse_body rnd \<sigma> P s)
      else [])"
  by pat_completeness auto
termination
  by (relation "measure (\<lambda>(args, rnd, \<sigma>, P, tol, maxite, s). maxite - lite s)")
     (auto simp: lse_body_def Let_def)

declare lse_trace.simps [simp del]

text \<open>
  \<^verbatim>\<open>logdomainIPFP_with_LSE_trick(self, \<sigma>, tol, maxite)\<close>. The coupling and the two
  values formed after the loop are those of \<^verbatim>\<open>logdomainIPFP\<close>.
\<close>

definition logdomainIPFP_with_LSE_trick ::
    "rounding \<Rightarrow> OTProblem \<Rightarrow> real \<Rightarrow> real \<Rightarrow> nat \<Rightarrow> py_error + ipfp_result" where
  "logdomainIPFP_with_LSE_trick rnd P \<sigma> tol maxite =
     (if maxite = 0 then Inl UnboundLocalError
      else if nby P = 0 \<or> nbx P = 0 then Inl ValueError
      else
        let s = lse_loop rnd \<sigma> P tol maxite (log_init P tol)
        in case lu s of
             None \<Rightarrow> Inl UnboundLocalError
           | Some u \<Rightarrow>
               Inr (log_result \<sigma> P u (lv s) (lite s) ''log-domain IPFP with LSE trick''))"

section \<open>The pivoting primitive\<close>

text \<open>
  \<^verbatim>\<open>np.linalg.solve\<close> belongs to numpy, not to the notebooks. The model takes the
  linear solver as a parameter: it either raises (\<^verbatim>\<open>LinAlgError\<close> on a singular
  matrix) or returns a vector. What is assumed about the vector it returns is stated in
  each theorem.
\<close>

type_synonym solver = "mat \<Rightarrow> vec \<Rightarrow> py_error + vec"

text \<open>
  A numpy array has an element type, and a value assigned into an array of integers is
  cut to its integer part (towards zero).
\<close>

datatype dtype = Int_array | Float_array

definition cast :: "dtype \<Rightarrow> real \<Rightarrow> real" where
  "cast t x = (case t of
                 Float_array \<Rightarrow> x
               | Int_array \<Rightarrow> of_int (if 0 \<le> x then \<lfloor>x\<rfloor> else \<lceil>x\<rceil>))"

text \<open>
  The fields of \<^verbatim>\<open>class Pivoter\<close>: \<^verbatim>\<open>nbb = B_i_b.shape[0]\<close>. The element type of the
  array \<^verbatim>\<open>B_i_b\<close> is kept beside its entries.
\<close>

record Pivoter =
  nbb :: nat
  B_i_b :: mat
  B_dtype :: dtype
  x_b :: vec

text \<open>
  \<^verbatim>\<open>thedic = {b: self.x_b[b] / z_b[b] for b in range(self.nbb) if z_b[b]>0}\<close>, as the
  list of its items in insertion order.
\<close>

definition thedic :: "rounding \<Rightarrow> nat \<Rightarrow> vec \<Rightarrow> vec \<Rightarrow> (nat \<times> real) list" where
  "thedic rnd n x z = map (\<lambda>b. (b, rnd (x ! b / z ! b))) (filter (\<lambda>b. 0 < z ! b) [0..<n])"

text \<open>
  \<^verbatim>\<open>bdep = min(thedic, key = thedic.get)\<close> with \<^verbatim>\<open>epsilon = thedic[bdep]\<close>: Python's
  \<^verbatim>\<open>min\<close> keeps the first key whose value is least, and raises \<^verbatim>\<open>ValueError\<close> on an
  empty dictionary.
\<close>

definition min_by_value :: "(nat \<times> real) list \<Rightarrow> py_error + (nat \<times> real)" where
  "min_by_value d =
     (case d of
        [] \<Rightarrow> Inl ValueError
      | p # ps \<Rightarrow> Inr (fold (\<lambda>q best. if snd q < snd best then q else best) ps p))"

text \<open>
  \<^verbatim>\<open>Pivoter.determine_departing(self, Nent_i)\<close>. Reading \<^verbatim>\<open>self.x_b[b]\<close> past the end
  of \<^verbatim>\<open>x_b\<close> raises \<^verbatim>\<open>IndexError\<close>.
\<close>

definition determine_departing ::
    "rounding \<Rightarrow> solver \<Rightarrow> Pivoter \<Rightarrow> vec \<Rightarrow> py_error + (nat \<times> real)" where
  "determine_departing rnd solve P Nent_i =
     (case solve (B_i_b P) Nent_i of
        Inl e \<Rightarrow> Inl e
      | Inr z_b \<Rightarrow>
          if list_ex (\<lambda>b. 0 < z_b ! b \<and> length (x_b P) \<le> b) [0..<nbb P]
          then Inl IndexError
          else min_by_value (thedic rnd (nbb P) (x_b P) z_b))"

text \<open>\<^verbatim>\<open>M[:, j] = c\<close>: overwrite column \<open>j\<close>.\<close>

definition set_column :: "mat \<Rightarrow> nat \<Rightarrow> vec \<Rightarrow> mat" where
  "set_column M j c = map2 (\<lambda>row a. row[j := a]) M c"

text \<open>
  \<^verbatim>\<open>Pivoter.update(self, bdep, epsilon, Nent_i)\<close>:
  \<^verbatim>\<open>
    self.x_b = self.x_b - epsilon * np.linalg.solve(self.B_i_b,Nent_i)
    self.x_b[bdep] = epsilon
    self.B_i_b[:,bdep] = Nent_i
  \<close>
  The mutated object is returned as the new state. The product \<^verbatim>\<open>epsilon * z\<close> and the
  difference are rounded entry by entry, and the entering column is stored in the
  element type of \<^verbatim>\<open>B_i_b\<close>.
\<close>

definition update ::
    "rounding \<Rightarrow> solver \<Rightarrow> Pivoter \<Rightarrow> nat \<Rightarrow> real \<Rightarrow> vec \<Rightarrow> py_error + Pivoter" where
  "update rnd solve P bdep epsilon Nent_i =
     (case solve (B_i_b P) Nent_i of
        Inl e \<Rightarrow> Inl e
      | Inr z_b \<Rightarrow>
          if length (x_b P) \<le> bdep \<or> list_ex (\<lambda>row. length row \<le> bdep) (B_i_b P)
          then Inl IndexError
          else Inr (P\<lparr> x_b := (map2 (\<lambda>x z. rnd (x - rnd (epsilon * z))) (x_b P) z_b)
                               [bdep := epsilon],
                      B_i_b := set_column (B_i_b P) bdep (map (cast (B_dtype P)) Nent_i) \<rparr>))"

section \<open>The knapsack pricing oracle\<close>

text \<open>
  \<^verbatim>\<open>max(thedic, key = thedic.get)\<close> with the value it selects: the first key whose value
  is greatest. The dictionary of \<^verbatim>\<open>knapsack\<close> always holds the key \<open>0\<close>, so the
  second equation is never reached.
\<close>

fun max_by_value :: "(nat \<times> real) list \<Rightarrow> nat \<times> real" where
  "max_by_value (p # ps) = fold (\<lambda>q best. if snd best < snd q then q else best) ps p"
| "max_by_value [] = (0, 0)"

text \<open>
  Row \<open>0\<close> of the tables \<^verbatim>\<open>A\<close> and \<^verbatim>\<open>F\<close>:
  \<^verbatim>\<open>
    A[0,:]=np.array([(v // w_i[0])  for v in range(W+1)])
    F[0,:]=np.array([(v // w_i[0])* max(k_i[0],0)  for v in range(W+1)])
  \<close>
\<close>

definition knap_row0 :: "nat list \<Rightarrow> vec \<Rightarrow> nat \<Rightarrow> nat list \<times> real list" where
  "knap_row0 w k W =
     (map (\<lambda>v. v div w ! 0) [0..<W + 1],
      map (\<lambda>v. real (v div w ! 0) * max (k ! 0) 0) [0..<W + 1])"

text \<open>
  The cell \<open>(i+1, v)\<close> of both tables, from row \<open>i\<close> of \<^verbatim>\<open>F\<close>:
  \<^verbatim>\<open>
    thedic = {a: k_i[i+1]*a +F[i,v-a*w_i[i+1]] for a in range( (v// w_i[i+1])+1 )}
    A[i+1,v] = max(thedic, key = thedic.get)
    F[i+1,v] = thedic[A[i+1,v]]
  \<close>
\<close>

definition knap_cell :: "nat list \<Rightarrow> vec \<Rightarrow> nat \<Rightarrow> real list \<Rightarrow> nat \<Rightarrow> nat \<times> real" where
  "knap_cell w k i F v =
     max_by_value (map (\<lambda>a. (a, k ! (i + 1) * real a + F ! (v - a * w ! (i + 1))))
                     [0..<v div w ! (i + 1) + 1])"

text \<open>The rows \<open>0 .. n\<close> of the two tables, each row a pair (row of \<^verbatim>\<open>A\<close>, row of \<^verbatim>\<open>F\<close>).\<close>

fun knap_fill :: "nat list \<Rightarrow> vec \<Rightarrow> nat \<Rightarrow> nat \<Rightarrow> (nat list \<times> real list) list" where
  "knap_fill w k W 0 = [knap_row0 w k W]"
| "knap_fill w k W (Suc i) =
     (let T = knap_fill w k W i;
          cells = map (knap_cell w k i (snd (last T))) [0..<W + 1]
      in T @ [(map fst cells, map snd cells)])"

text \<open>
  The backward pass, for the items \<open>i - 1\<close> down to \<open>0\<close>:
  \<^verbatim>\<open>
    for i in reversed(range(nbi)):
        a_i[i] = A[i,v]
        v = v-A[i,v]*w_i[i]
  \<close>
\<close>

fun backtrack :: "nat list list \<Rightarrow> nat list \<Rightarrow> nat \<Rightarrow> nat \<Rightarrow> nat list" where
  "backtrack A w v 0 = []"
| "backtrack A w v (Suc i) = backtrack A w (v - A ! i ! v * w ! i) i @ [A ! i ! v]"

text \<open>
  \<^verbatim>\<open>knapsack(k_i, W)\<close>, with the notebook's global \<^verbatim>\<open>w_i\<close> as first argument. The
  pattern is returned as naturals (the code stores them in a float array). With no item,
  or fewer weights than values, an index is out of bounds.
\<close>

definition knapsack :: "nat list \<Rightarrow> vec \<Rightarrow> nat \<Rightarrow> py_error + nat list" where
  "knapsack w k W =
     (let nbi = length k
      in if nbi = 0 \<or> length w < nbi then Inl IndexError
         else Inr (backtrack (map fst (knap_fill w k W (nbi - 1))) w W nbi))"

section \<open>Column generation for the cutting-stock problem\<close>

text \<open>The two arrays the loop updates: the basis \<^verbatim>\<open>AB_i_j\<close> and the solution \<^verbatim>\<open>xB_j\<close>.\<close>

record cg_state =
  AB_i_j :: mat
  xB_j :: vec

text \<open>\<^verbatim>\<open>np.diag(d)\<close> and \<^verbatim>\<open>M.T\<close> (for a matrix with \<open>nc\<close> columns).\<close>

definition diag :: "vec \<Rightarrow> mat" where
  "diag d = map (\<lambda>i. (replicate (length d) 0)[i := d ! i]) [0..<length d]"

definition transpose_mat :: "nat \<Rightarrow> mat \<Rightarrow> mat" where
  "transpose_mat nc M = map (column M) [0..<nc]"

text \<open>
  Before the loop:
  \<^verbatim>\<open>
    AB_i_j = np.diag( W // w_i)
    xB_j = np.linalg.solve(AB_i_j,q_i)
  \<close>
\<close>

definition cg_init :: "solver \<Rightarrow> nat list \<Rightarrow> vec \<Rightarrow> nat \<Rightarrow> py_error + cg_state" where
  "cg_init solve w q W =
     (let AB = diag (map (\<lambda>wi. real (W div wi)) w)
      in case solve AB q of
           Inl e \<Rightarrow> Inl e
         | Inr xB \<Rightarrow> Inr \<lparr> AB_i_j = AB, xB_j = xB \<rparr>)"

text \<open>
  One pass of \<^verbatim>\<open>while cont:\<close>, with \<^verbatim>\<open>nbi = len(w_i)\<close>. \<open>None\<close> stands for
  \<^verbatim>\<open>cont=False\<close>; \<open>Some\<close> holds the arrays after the pivot.
  \<^verbatim>\<open>
    k_i = np.linalg.solve(AB_i_j.T,np.ones(nbi))
    aent_i=knapsack(k_i,W)
    if 1 >= k_i.dot(aent_i):
        cont=False
    else:
        zent_j = np.linalg.solve(AB_i_j,aent_i)
        thedic = {j: xB_j[j] / zent_j[j] for j in range(nbi) if zent_j[j]>0}
        jexit = min(thedic, key = thedic.get)
        epsilon = thedic[jexit]
        xB_j = xB_j - epsilon * zent_j
        xB_j[jexit] = epsilon
        AB_i_j[:,jexit] = aent_i
  \<close>
  The dot product, the ratios and the update of \<^verbatim>\<open>xB_j\<close> are rounded. The pattern is
  integral, so that storing it in the integer array \<^verbatim>\<open>AB_i_j\<close> does not change it. The
  pricing oracle is the one of the previous section, whose own sums are not rounded
  (they are exact whenever the prices are dyadic, as in the runs below).
\<close>

definition cg_step ::
    "rounding \<Rightarrow> solver \<Rightarrow> nat list \<Rightarrow> nat \<Rightarrow> cg_state \<Rightarrow> py_error + cg_state option" where
  "cg_step rnd solve w W s =
     (let nbi = length w
      in case solve (transpose_mat nbi (AB_i_j s)) (replicate nbi 1) of
           Inl e \<Rightarrow> Inl e
         | Inr k_i \<Rightarrow>
            (case knapsack w k_i W of
               Inl e \<Rightarrow> Inl e
             | Inr aent \<Rightarrow>
                 let aent_i = map real aent
                 in if 1 \<ge> fdot rnd k_i aent_i then Inr None
                    else
                     (case solve (AB_i_j s) aent_i of
                        Inl e \<Rightarrow> Inl e
                      | Inr zent_j \<Rightarrow>
                         (case min_by_value (thedic rnd nbi (xB_j s) zent_j) of
                            Inl e \<Rightarrow> Inl e
                          | Inr (jexit, epsilon) \<Rightarrow>
                              Inr (Some \<lparr> AB_i_j = set_column (AB_i_j s) jexit aent_i,
                                          xB_j = (map2 (\<lambda>x z. rnd (x - rnd (epsilon * z)))
                                                    (xB_j s) zent_j)
                                                   [jexit := epsilon] \<rparr>)))))"

text \<open>The states at the head of the loop: the initial one, and each one a pivot leads to.\<close>

inductive cg_reach :: "rounding \<Rightarrow> solver \<Rightarrow> nat list \<Rightarrow> vec \<Rightarrow> nat \<Rightarrow> cg_state \<Rightarrow> bool"
  for rnd solve w q W where
  cg_start: "cg_init solve w q W = Inr s \<Longrightarrow> cg_reach rnd solve w q W s"
| cg_pivot: "cg_reach rnd solve w q W s \<Longrightarrow> cg_step rnd solve w W s = Inr (Some s') \<Longrightarrow>
             cg_reach rnd solve w q W s'"

text \<open>
  What the theorems on the loop assume of the linear solver: a vector it returns has the
  length of the right-hand side and solves the system.
\<close>

definition solves :: "solver \<Rightarrow> bool" where
  "solves solve \<longleftrightarrow> (\<forall>M y z. solve M y = Inr z \<longrightarrow> length z = length y \<and> mat_vec M z = y)"

text \<open>
  A solver of that kind, for concrete runs: it solves the systems whose matrix is
  diagonal with no zero on the diagonal, and refuses every other one.
\<close>

definition diag_solve :: solver where
  "diag_solve M y =
     (let d = map (\<lambda>i. M ! i ! i) [0..<length M]
      in if M = diag d \<and> length y = length M \<and> list_all (\<lambda>t. t \<noteq> 0) d
         then Inr (map2 (/) y d) else Inl LinAlgError)"

text \<open>
  A second solver for concrete runs, on any square system: Gauss-Jordan elimination in
  exact arithmetic. A row is divided by its pivot, and the multiples of the pivot row are
  taken off the other rows.
\<close>

definition scale_row :: "real \<Rightarrow> vec \<Rightarrow> vec" where
  "scale_row c row = map (\<lambda>t. t / c) row"

definition sub_row :: "vec \<Rightarrow> nat \<Rightarrow> vec \<Rightarrow> vec" where
  "sub_row p i row = map2 (\<lambda>a b. a - row ! i * b) row p"

text \<open>The first row that passes a test, and the other rows in their order.\<close>

fun take_first :: "(vec \<Rightarrow> bool) \<Rightarrow> mat \<Rightarrow> (vec \<times> mat) option" where
  "take_first Q [] = None"
| "take_first Q (r # rs) =
     (if Q r then Some (r, rs)
      else case take_first Q rs of None \<Rightarrow> None | Some (p, rest) \<Rightarrow> Some (p, r # rest))"

text \<open>
  Column by column on the matrix extended by the right-hand side: the pivot is the first
  row left with a nonzero entry in the column, and there is no answer when no row has
  one.
\<close>

fun gauss_jordan :: "nat \<Rightarrow> nat \<Rightarrow> mat \<Rightarrow> mat \<Rightarrow> mat option" where
  "gauss_jordan 0 i upper rest = (if rest = [] then Some upper else None)"
| "gauss_jordan (Suc k) i upper rest =
     (case take_first (\<lambda>r. r ! i \<noteq> 0) rest of
        None \<Rightarrow> None
      | Some (r, rest') \<Rightarrow>
          let p = scale_row (r ! i) r
          in gauss_jordan k (Suc i) (map (sub_row p i) upper @ [p]) (map (sub_row p i) rest'))"

text \<open>
  The solver refuses a system that is not square and one whose matrix is singular, where
  \<^verbatim>\<open>np.linalg.solve\<close> raises \<^verbatim>\<open>LinAlgError\<close>, and answers only with a vector that solves
  the system.
\<close>

definition gauss_solve :: solver where
  "gauss_solve M y =
     (if length y \<noteq> length M \<or> \<not> list_all (\<lambda>row. length row = length M) M then Inl LinAlgError
      else case gauss_jordan (length M) 0 [] (map2 (\<lambda>row t. row @ [t]) M y) of
             None \<Rightarrow> Inl LinAlgError
           | Some R \<Rightarrow>
               let z = map last R
               in if length z = length y \<and> mat_vec M z = y then Inr z else Inl LinAlgError)"

section \<open>The Lemke-Howson pivot loop\<close>

text \<open>
  With \<open>n = nbi + nbj\<close>, the variables are numbered \<open>0 .. n-1\<close> (the slacks \<^verbatim>\<open>wks\<close>)
  and \<open>n .. 2n-1\<close> (the structural \<^verbatim>\<open>zks\<close>):
  \<^verbatim>\<open>complements = list(len(zks)+np.arange(len(zks))) + list(np.arange(len(zks)))\<close>.
\<close>

definition complements :: "nat \<Rightarrow> nat list" where
  "complements n = [n..<n + n] @ [0..<n]"

text \<open>The state at the head of \<^verbatim>\<open>while True:\<close>: the basis \<^verbatim>\<open>tab.k_b\<close> and \<^verbatim>\<open>kent\<close>.\<close>

record lh_state =
  k_b :: "nat list"
  kent :: nat

text \<open>
  Modelled from the spec: \<^verbatim>\<open>Tableau.update\<close> of \<^verbatim>\<open>mec.lp\<close> is not among the sources.
  The spec's update "swaps index labels" between the entering and the departing
  variable: the basis keeps its order and the departing label is replaced by the
  entering one.
\<close>

definition basis_update :: "nat list \<Rightarrow> nat \<Rightarrow> nat \<Rightarrow> nat list" where
  "basis_update kb ke kd = map (\<lambda>k. if k = kd then ke else k) kb"

text \<open>
  The test that leaves the loop:
  \<^verbatim>\<open>(complements[kent] not in tab.k_b) and (complements[kdep] in tab.k_b)\<close>.
\<close>

definition exit_test :: "nat \<Rightarrow> nat \<Rightarrow> nat \<Rightarrow> nat list \<Rightarrow> bool" where
  "exit_test n ke kd kb \<longleftrightarrow> complements n ! ke \<notin> set kb \<and> complements n ! kd \<in> set kb"

text \<open>For every pair \<open>(w\<^sub>k, z\<^sub>k)\<close>, exactly one of the two is basic.\<close>

definition fully_complementary :: "nat \<Rightarrow> nat list \<Rightarrow> bool" where
  "fully_complementary n kb = list_all (\<lambda>k. (k \<in> set kb) \<noteq> (n + k \<in> set kb)) [0..<n]"

text \<open>
  The loop starts from the all-slack basis with \<^verbatim>\<open>kent = len(wks)\<close>. Each pass takes
  the departing variable from the ratio test of \<^verbatim>\<open>Tableau.determine_departing\<close> (not
  among the sources: any basic variable may be its answer here), updates the basis, and
  unless the test leaves the loop continues with \<^verbatim>\<open>kent = complements[kdep]\<close>.
\<close>

inductive lh_reach :: "nat \<Rightarrow> lh_state \<Rightarrow> bool" for n where
  lh_start: "lh_reach n \<lparr> k_b = [0..<n], kent = n \<rparr>"
| lh_pivot: "lh_reach n s \<Longrightarrow> kdep \<in> set (k_b s) \<Longrightarrow>
             \<not> exit_test n (kent s) kdep (basis_update (k_b s) (kent s) kdep) \<Longrightarrow>
             lh_reach n \<lparr> k_b = basis_update (k_b s) (kent s) kdep, kent = complements n ! kdep \<rparr>"

section \<open>Bimatrix games and the Lemke-Howson solver\<close>

text \<open>
  The class \<^verbatim>\<open>Bimatrix_game\<close>: the payoff matrices of the two players and
  \<^verbatim>\<open>nbi, nbj = A_i_j.shape\<close>.
\<close>

record Bimatrix_game =
  A_i_j :: mat
  B_i_j :: mat
  nbi :: nat
  nbj :: nat

text \<open>\<^verbatim>\<open>M - np.min(M) + 1\<close>, which makes every entry at least one.\<close>

definition shift :: "mat \<Rightarrow> mat" where
  "shift M = (let c = Min (set (concat M)) in map (map (\<lambda>t. t - c + 1)) M)"

text \<open>
  \<^verbatim>\<open>np.block([[np.zeros((nbi, nbi)), A_i_j], [B_i_j.T, np.zeros((nbj, nbj))]])\<close>.
\<close>

definition C_k_l :: "nat \<Rightarrow> nat \<Rightarrow> mat \<Rightarrow> mat \<Rightarrow> mat" where
  "C_k_l ni nj A B =
     map (\<lambda>row. replicate ni 0 @ row) A @ map (\<lambda>j. column B j @ replicate nj 0) [0..<nj]"

text \<open>
  Modelled from the spec: the class \<^verbatim>\<open>Tableau\<close> of \<^verbatim>\<open>mec.lp\<close> is not among the
  sources. In the spec's data model a tableau holds the columns \<open>B\<close> of the basic
  variables, the basic solution \<open>x\<^sub>B\<close> and the ordered \<^verbatim>\<open>basis_index_set\<close> (the
  attribute \<^verbatim>\<open>k_b\<close> that the solver reads). It is modelled as the \<^verbatim>\<open>Pivoter\<close> of the
  column-generation notebook together with the labels of its basic variables.
\<close>

record Tableau =
  T_B :: mat
  T_x :: vec
  basis_index_set :: "nat list"

text \<open>
  Modelled from the spec: the column of variable \<open>k\<close> in the system \<open>w + C z = d\<close> of
  \<^verbatim>\<open>Tableau(C_k_l, d, c, wks, zks)\<close>, where the slacks are numbered \<open>0 .. n-1\<close> and
  have the unit columns, and the structural variable \<open>n + l\<close> has column \<open>l\<close> of \<open>C\<close>.
\<close>

definition var_column :: "nat \<Rightarrow> mat \<Rightarrow> nat \<Rightarrow> vec" where
  "var_column n C k = (if k < n then (replicate n 0)[k := 1] else column C (k - n))"

text \<open>
  Modelled from the spec: \<^verbatim>\<open>Tableau(C_k_l, np.ones(n), np.zeros(n), wks, zks)\<close>
  starts from the identity-slack basis with \<open>x\<^sub>B = B\<^sup>-\<^sup>1 d\<close> and \<open>d\<close> all ones.
\<close>

definition tableau_init :: "solver \<Rightarrow> nat \<Rightarrow> py_error + Tableau" where
  "tableau_init solve n =
     (let B = diag (replicate n 1)
      in case solve B (replicate n 1) of
           Inl e \<Rightarrow> Inl e
         | Inr x \<Rightarrow> Inr \<lparr> T_B = B, T_x = x, basis_index_set = [0..<n] \<rparr>)"

text \<open>The pivoter inside a tableau.\<close>

definition as_pivoter :: "Tableau \<Rightarrow> Pivoter" where
  "as_pivoter T =
     \<lparr> nbb = length (T_B T), B_i_b = T_B T, B_dtype = Float_array, x_b = T_x T \<rparr>"

text \<open>
  Modelled from the spec: \<^verbatim>\<open>tab.determine_departing(kent)\<close> runs the ratio test of
  the spec's pivoting primitive on the column of the entering variable, which is
  \<^verbatim>\<open>Pivoter.determine_departing\<close>, and answers with the label of the departing row.
\<close>

definition tableau_determine_departing ::
    "solver \<Rightarrow> nat \<Rightarrow> mat \<Rightarrow> Tableau \<Rightarrow> nat \<Rightarrow> py_error + nat" where
  "tableau_determine_departing solve n C T ke =
     (case determine_departing exact solve (as_pivoter T) (var_column n C ke) of
        Inl e \<Rightarrow> Inl e
      | Inr (bdep, epsilon) \<Rightarrow>
          if bdep < length (basis_index_set T) then Inr (basis_index_set T ! bdep)
          else Inl IndexError)"

text \<open>\<^verbatim>\<open>xs.index(k)\<close>: the first position of \<open>k\<close>, if it occurs.\<close>

fun index_of :: "nat \<Rightarrow> nat list \<Rightarrow> nat option" where
  "index_of k [] = None"
| "index_of k (x # xs) = (if x = k then Some 0 else map_option Suc (index_of k xs))"

text \<open>
  Modelled from the spec: \<^verbatim>\<open>tab.update(kent, kdep)\<close> finds the row of the departing
  variable, takes as step the ratio of that row, updates \<open>x\<^sub>B\<close> and \<open>B\<close> as
  \<^verbatim>\<open>Pivoter.update\<close> does, and gives the row the label of the entering variable.
\<close>

definition tableau_update ::
    "solver \<Rightarrow> nat \<Rightarrow> mat \<Rightarrow> Tableau \<Rightarrow> nat \<Rightarrow> nat \<Rightarrow> py_error + Tableau" where
  "tableau_update solve n C T ke kd =
     (case index_of kd (basis_index_set T) of
        None \<Rightarrow> Inl ValueError
      | Some bdep \<Rightarrow>
         (case solve (T_B T) (var_column n C ke) of
            Inl e \<Rightarrow> Inl e
          | Inr z \<Rightarrow>
              if z ! bdep = 0 then Inl ZeroDivisionError
              else
               (case update exact solve (as_pivoter T) bdep (T_x T ! bdep / z ! bdep)
                       (var_column n C ke) of
                  Inl e \<Rightarrow> Inl e
                | Inr P \<Rightarrow> Inr \<lparr> T_B = B_i_b P, T_x = x_b P,
                                  basis_index_set = basis_update (basis_index_set T) ke kd \<rparr>)))"

text \<open>
  Modelled from the spec: the first component of \<^verbatim>\<open>tab.solution()\<close>, the values of
  the structural variables: \<open>x\<^sub>B\<close> at the row of a basic one, zero for the others.
\<close>

definition tableau_solution :: "nat \<Rightarrow> Tableau \<Rightarrow> vec" where
  "tableau_solution n T =
     map (\<lambda>k. case index_of (n + k) (basis_index_set T) of
                 None \<Rightarrow> 0
               | Some b \<Rightarrow> T_x T ! b) [0..<n]"

text \<open>
  The loop of \<^verbatim>\<open>Bimatrix_game_lemke_howson_solve\<close>:
  \<^verbatim>\<open>
    while True:
        kdep = tab.determine_departing(kent)
        tab.update(kent, kdep)
        if (complements[kent] not in tab.k_b) and (complements[kdep] in tab.k_b):
            break
        else:
            kent = complements[kdep]
  \<close>
  The loop has no bound of its own: the first argument counts the passes allowed, and
  \<open>None\<close> says that they did not suffice.
\<close>

fun lh_loop ::
    "solver \<Rightarrow> nat \<Rightarrow> mat \<Rightarrow> nat \<Rightarrow> Tableau \<Rightarrow> nat \<Rightarrow> (py_error + Tableau) option" where
  "lh_loop solve n C 0 T ke = None"
| "lh_loop solve n C (Suc fuel) T ke =
     (case tableau_determine_departing solve n C T ke of
        Inl e \<Rightarrow> Some (Inl e)
      | Inr kd \<Rightarrow>
         (case tableau_update solve n C T ke kd of
            Inl e \<Rightarrow> Some (Inl e)
          | Inr T' \<Rightarrow>
              if exit_test n ke kd (basis_index_set T') then Some (Inr T')
              else lh_loop solve n C fuel T' (complements n ! kd)))"

text \<open>The dictionary that the solver returns.\<close>

record lh_result =
  p_i :: vec
  q_j :: vec
  val1 :: real
  val2 :: real

text \<open>
  \<^verbatim>\<open>Bimatrix_game_lemke_howson_solve(self)\<close>: the payoffs are shifted, the tableau is
  set up with \<^verbatim>\<open>kent = len(wks)\<close>, the loop runs, and the structural values
  \<^verbatim>\<open>x_i, y_j = z_k[:nbi], z_k[nbi:]\<close> are scaled by \<^verbatim>\<open>\<beta> = 1 / x_i.sum()\<close> and
  \<^verbatim>\<open>\<alpha> = 1 / y_j.sum()\<close>. On a sum that is zero numpy warns and goes on with infinite
  and undefined entries; the reals have no such values, and the model stops there with
  \<open>ZeroDivisionError\<close>.
\<close>

definition lemke_howson_solve ::
    "solver \<Rightarrow> nat \<Rightarrow> Bimatrix_game \<Rightarrow> (py_error + lh_result) option" where
  "lemke_howson_solve solve fuel G =
     (let A = shift (A_i_j G); B = shift (B_i_j G);
          n = nbi G + nbj G;
          C = C_k_l (nbi G) (nbj G) A B
      in case tableau_init solve n of
           Inl e \<Rightarrow> Some (Inl e)
         | Inr T0 \<Rightarrow>
            (case lh_loop solve n C fuel T0 n of
               None \<Rightarrow> None
             | Some (Inl e) \<Rightarrow> Some (Inl e)
             | Some (Inr T) \<Rightarrow>
                 let z_k = tableau_solution n T;
                     x_i = take (nbi G) z_k; y_j = drop (nbi G) z_k
                 in if sum_list y_j = 0 \<or> sum_list x_i = 0 then Some (Inl ZeroDivisionError)
                    else
                      let alpha = 1 / sum_list y_j; beta = 1 / sum_list x_i
                      in Some (Inr \<lparr> p_i = map (\<lambda>t. t * beta) x_i,
                                      q_j = map (\<lambda>t. t * alpha) y_j,
                                      val1 = alpha + Min (set (concat (A_i_j G))) - 1,
                                      val2 = beta + Min (set (concat (B_i_j G))) - 1 \<rparr>)))"

text \<open>\<^verbatim>\<open>np.eye(n)[i]\<close>.\<close>

definition unit_vec :: "nat \<Rightarrow> nat \<Rightarrow> vec" where
  "unit_vec n i = (replicate n 0)[i := 1]"

text \<open>
  \<^verbatim>\<open>Bimatrix_game_is_NashEq(self, p_i, q_j, tol)\<close>:
  \<^verbatim>\<open>
    for i in range(self.nbi):
        if np.eye(self.nbi)[i] @ self.A_i_j @ q_j > p_i @ self.A_i_j @ q_j + tol:
            return False
    for j in range(self.nbj):
        if p_i @ self.B_i_j @ np.eye(self.nbj)[j] > p_i @ self.B_i_j @ q_j + tol:
            return False
    return True
  \<close>
\<close>

definition is_NashEq :: "Bimatrix_game \<Rightarrow> vec \<Rightarrow> vec \<Rightarrow> real \<Rightarrow> bool" where
  "is_NashEq G p q tol =
     (if list_ex (\<lambda>i. dot (vec_mat (nbj G) (unit_vec (nbi G) i) (A_i_j G)) q
                       > dot (vec_mat (nbj G) p (A_i_j G)) q + tol) [0..<nbi G]
      then False
      else if list_ex (\<lambda>j. dot (vec_mat (nbj G) p (B_i_j G)) (unit_vec (nbj G) j)
                       > dot (vec_mat (nbj G) p (B_i_j G)) q + tol) [0..<nbj G]
      then False
      else True)"

section \<open>Notions used in the statements and proofs\<close>

text \<open>\<open>max |s - t|\<close> over two arrays of the same length: the residual of a marginal.\<close>

definition residual :: "vec \<Rightarrow> vec \<Rightarrow> real" where
  "residual s t = Max (set (map2 (\<lambda>a b. \<bar>a - b\<bar>) s t))"

text \<open>A matrix of the given shape with strictly positive entries, as the kernel is.\<close>

definition pos_mat :: "nat \<Rightarrow> nat \<Rightarrow> mat \<Rightarrow> bool" where
  "pos_mat nr nc K \<longleftrightarrow> length K = nr \<and> (\<forall>i<nr. length (K ! i) = nc \<and> (\<forall>j<nc. 0 < K ! i ! j))"

text \<open>The two arrays one pass of the matrix loop computes from the column scaling \<open>B0\<close>.\<close>

definition pass_A :: "mat \<Rightarrow> OTProblem \<Rightarrow> vec \<Rightarrow> vec" where
  "pass_A K P B0 = vdiv (n_x P) (mat_vec K B0)"

definition pass_KA :: "mat \<Rightarrow> OTProblem \<Rightarrow> vec \<Rightarrow> vec" where
  "pass_KA K P B0 = vec_mat (nby P) (pass_A K P B0) K"

text \<open>The state \<open>s\<close> is what one pass leaves when it starts from a positive \<open>B0\<close>.\<close>

definition after_pass :: "mat \<Rightarrow> OTProblem \<Rightarrow> vec \<Rightarrow> mstate \<Rightarrow> bool" where
  "after_pass K P B0 s \<longleftrightarrow>
     length B0 = nby P \<and> positive B0 \<and>
     mA s = Some (pass_A K P B0) \<and> mB s = vdiv (m_y P) (pass_KA K P B0) \<and>
     merror s = Max (set (map (\<lambda>t. \<bar>t\<bar> - 1) (vdiv (vmul (pass_KA K P B0) B0) (m_y P))))"

text \<open>What the column-generation loop keeps: a square basis and a nonnegative solution.\<close>

definition cg_inv :: "nat \<Rightarrow> cg_state \<Rightarrow> bool" where
  "cg_inv n s \<longleftrightarrow>
     length (AB_i_j s) = n \<and> (\<forall>row\<in>set (AB_i_j s). length row = n) \<and>
     length (xB_j s) = n \<and> (\<forall>t\<in>set (xB_j s). 0 \<le> t)"

text \<open>The complement of a variable as a function, and full complementarity of a set.\<close>

definition compl :: "nat \<Rightarrow> nat \<Rightarrow> nat" where
  "compl n k = (if k < n then n + k else k - n)"

definition fc :: "nat \<Rightarrow> nat set \<Rightarrow> bool" where
  "fc n T \<longleftrightarrow> (\<forall>k<n. (k \<in> T) \<noteq> (n + k \<in> T))"

text \<open>
  Almost complementarity at the head of the Lemke-Howson loop: the entering variable is
  not basic, and exchanging it for some basic variable gives a fully complementary set.
\<close>

definition lh_inv :: "nat \<Rightarrow> nat set \<Rightarrow> nat \<Rightarrow> bool" where
  "lh_inv n S ke \<longleftrightarrow>
     ke < n + n \<and> ke \<notin> S \<and> S \<subseteq> {..<n + n} \<and> (\<exists>x\<in>S. fc n (S - {x} \<union> {ke}))"

text \<open>A game whose matrices have the shape it declares, with a strategy for each player.\<close>

definition game_shaped :: "Bimatrix_game \<Rightarrow> bool" where
  "game_shaped G \<longleftrightarrow>
     0 < nbi G \<and> 0 < nbj G \<and>
     length (A_i_j G) = nbi G \<and> list_all (\<lambda>row. length row = nbj G) (A_i_j G) \<and>
     length (B_i_j G) = nbi G \<and> list_all (\<lambda>row. length row = nbj G) (B_i_j G)"

text \<open>
  What the pivots keep of a tableau for \<open>w + C z = 1\<close>: a square basis whose columns are
  those of the basic variables, and a nonnegative basic solution of the system.
\<close>

definition tab_inv :: "nat \<Rightarrow> mat \<Rightarrow> Tableau \<Rightarrow> bool" where
  "tab_inv n C T \<longleftrightarrow>
     length (T_B T) = n \<and> (\<forall>row\<in>set (T_B T). length row = n) \<and>
     length (T_x T) = n \<and> (\<forall>t\<in>set (T_x T). 0 \<le> t) \<and>
     mat_vec (T_B T) (T_x T) = replicate n 1 \<and>
     length (basis_index_set T) = n \<and> distinct (basis_index_set T) \<and>
     set (basis_index_set T) \<subseteq> {..<n + n} \<and>
     (\<forall>b<n. column (T_B T) b = var_column n C (basis_index_set T ! b))"

text \<open>The value of variable \<open>k\<close> at a tableau: zero unless it is basic.\<close>

definition var_value :: "Tableau \<Rightarrow> nat \<Rightarrow> real" where
  "var_value T k = (case index_of k (basis_index_set T) of None \<Rightarrow> 0 | Some b \<Rightarrow> T_x T ! b)"

subsection \<open>Concrete inputs\<close>

text \<open>Two types on each side, equal masses, a flat surplus.\<close>

definition uniform_market :: OTProblem where
  "uniform_market =
     \<lparr> Phi_x_y = [[0, 0], [0, 0]], n_x = [1/2, 1/2], m_y = [1/2, 1/2], nbx = 2, nby = 2 \<rparr>"

text \<open>Masses of 100 on every type, so that the kernel is \<open>[[2, 1], [1, 1]]\<close> at \<open>\<sigma> = 1\<close>.\<close>

definition skewed_market :: OTProblem where
  "skewed_market =
     \<lparr> Phi_x_y = [[ln 2, 0], [0, 0]], n_x = [100, 100], m_y = [100, 100], nbx = 2, nby = 2 \<rparr>"

text \<open>One type against two, masses summing to one: the kernel is \<open>[[1, 19]]\<close> at \<open>\<sigma> = 1\<close>.\<close>

definition lopsided_market :: OTProblem where
  "lopsided_market =
     \<lparr> Phi_x_y = [[0, ln 19]], n_x = [1], m_y = [1/10, 9/10], nbx = 1, nby = 2 \<rparr>"

text \<open>One type on each side, of mass two.\<close>

definition heavy_market :: OTProblem where
  "heavy_market = \<lparr> Phi_x_y = [[0]], n_x = [2], m_y = [2], nbx = 1, nby = 1 \<rparr>"

text \<open>Two small pivoters on diagonal bases.\<close>

definition unit_pivoter :: Pivoter where
  "unit_pivoter = \<lparr> nbb = 1, B_i_b = [[1]], B_dtype = Float_array, x_b = [1] \<rparr>"

definition two_pivoter :: Pivoter where
  "two_pivoter =
     \<lparr> nbb = 2, B_i_b = [[2, 0], [0, 1]], B_dtype = Float_array, x_b = [1, 1] \<rparr>"

text \<open>
  \<^verbatim>\<open>Pivoter(np.eye(2), np.array([1.7, 1.7]))\<close>: the decimal \<open>1.7\<close> is read as the nearest
  number of binary64.
\<close>

definition tie_pivoter :: Pivoter where
  "tie_pivoter =
     \<lparr> nbb = 2, B_i_b = [[1, 0], [0, 1]], B_dtype = Float_array,
       x_b = [float64 (17/10), float64 (17/10)] \<rparr>"

text \<open>\<^verbatim>\<open>Pivoter(np.eye(2, dtype=int), np.array([1., 1.]))\<close>: a basis stored as integers.\<close>

definition int_pivoter :: Pivoter where
  "int_pivoter = \<lparr> nbb = 2, B_i_b = [[1, 0], [0, 1]], B_dtype = Int_array, x_b = [1, 1] \<rparr>"

text \<open>
  The game \<^verbatim>\<open>pritchard_ex\<close> of the notebook:
  \<^verbatim>\<open>Bimatrix_game(np.array([[1,3,0],[0,0,2],[2,1,1]]), np.array([[2,1,0],[1,3,1],[0,0,3]]))\<close>.
\<close>

definition pritchard_ex :: Bimatrix_game where
  "pritchard_ex =
     \<lparr> A_i_j = [[1, 3, 0], [0, 0, 2], [2, 1, 1]], B_i_j = [[2, 1, 0], [1, 3, 1], [0, 0, 3]],
       nbi = 3, nbj = 3 \<rparr>"

text \<open>The matrix \<^verbatim>\<open>C_k_l\<close> of that game: both payoff matrices have minimum zero.\<close>

definition pritchard_C :: mat where
  "pritchard_C =
     [[0, 0, 0, 2, 4, 1], [0, 0, 0, 1, 1, 3], [0, 0, 0, 3, 2, 2],
      [3, 2, 1, 0, 0, 0], [2, 4, 1, 0, 0, 0], [1, 2, 4, 0, 0, 0]]"

section \<open>Facts on rounding\<close>

declare exact_def [simp]

lemma cast_float [simp]: "cast Float_array x = x"
  by (simp add: cast_def)

lemma map_cast_float [simp]: "map (cast Float_array) xs = xs"
  by (induction xs) simp_all

lemma foldl_add_sum_list: "foldl (\<lambda>s t. s + t) (x::real) ys = x + sum_list ys"
  by (induction ys arbitrary: x) simp_all

lemma fsum_exact [simp]: "fsum exact xs = sum_list xs"
  by (cases xs) (simp_all add: fsum_def foldl_add_sum_list)

lemma float64_eq:
  assumes "2 powi k \<le> \<bar>x\<bar>" "\<bar>x\<bar> < 2 powi (k + 1)"
  shows "float64 x = of_int (rne (x / 2 powi (k - 52))) * 2 powi (k - 52)"
proof -
  have "0 < (2::real) powi k" by simp
  then have pos: "0 < \<bar>x\<bar>" using assms(1) by linarith
  have "(2::real) powr real_of_int k = 2 powi k"
    by (rule powr_real_of_int') simp_all
  moreover have "(2::real) powr real_of_int (k + 1) = 2 powi (k + 1)"
    by (rule powr_real_of_int') simp_all
  ultimately have "\<lfloor>log 2 \<bar>x\<bar>\<rfloor> = k"
    using assms pos floor_log_eq_powr_iff [of "\<bar>x\<bar>" 2 k] by simp
  then show ?thesis using pos by (simp add: float64_def Let_def)
qed

text \<open>
  How a number is rounded: scale it by a power of two into the range of the 53-bit
  integers, round to the nearest integer, and scale back.
\<close>

lemma float64_scaled:
  assumes "2 ^ 52 \<le> \<bar>x\<bar> * 2 ^ n" "\<bar>x\<bar> * 2 ^ n < 2 ^ 53"
  shows "float64 x = of_int (rne (x * 2 ^ n)) / 2 ^ n"
proof -
  have a: "(2::real) powi (52 - int n) = 2 ^ 52 / 2 ^ n"
    by (simp add: power_int_diff)
  have b: "(2::real) powi (52 - int n + 1) = 2 ^ 53 / 2 ^ n"
    by (simp add: power_int_diff power_int_add)
  have c: "(2::real) powi (52 - int n - 52) = 1 / 2 ^ n"
    by (simp add: power_int_minus field_simps)
  have "2 powi (52 - int n) \<le> \<bar>x\<bar>" "\<bar>x\<bar> < 2 powi (52 - int n + 1)"
    using assms unfolding a b by (simp_all add: field_simps)
  from float64_eq [OF this] show ?thesis unfolding c by simp
qed

section \<open>Facts on vectors and matrices\<close>

lemma fdot_exact [simp]: "fdot exact a b = dot a b"
  by (simp add: fdot_def dot_def)

lemma dot_sum: "length a = length b \<Longrightarrow> dot a b = (\<Sum>i<length a. a ! i * b ! i)"
  by (simp add: dot_def sum_list_sum_nth atLeast0LessThan)

lemma sum_list_lessThan: "sum_list (xs::real list) = (\<Sum>i<length xs. xs ! i)"
  by (simp add: sum_list_sum_nth atLeast0LessThan)

lemma length_mat_vec [simp]: "length (mat_vec M v) = length M"
  by (simp add: mat_vec_def)

lemma nth_mat_vec [simp]: "i < length M \<Longrightarrow> mat_vec M v ! i = dot (M ! i) v"
  by (simp add: mat_vec_def)

lemma length_column [simp]: "length (column M j) = length M"
  by (simp add: column_def)

lemma nth_column [simp]: "i < length M \<Longrightarrow> column M j ! i = M ! i ! j"
  by (simp add: column_def)

lemma length_vec_mat [simp]: "length (vec_mat nc a M) = nc"
  by (simp add: vec_mat_def)

lemma nth_vec_mat [simp]: "j < nc \<Longrightarrow> vec_mat nc a M ! j = dot a (column M j)"
  by (simp add: vec_mat_def)

lemma length_vdiv [simp]: "length (vdiv a b) = min (length a) (length b)"
  by (simp add: vdiv_def)

lemma nth_vdiv [simp]: "i < length a \<Longrightarrow> i < length b \<Longrightarrow> vdiv a b ! i = a ! i / b ! i"
  by (simp add: vdiv_def)

lemma length_vmul [simp]: "length (vmul a b) = min (length a) (length b)"
  by (simp add: vmul_def)

lemma nth_vmul [simp]: "i < length a \<Longrightarrow> i < length b \<Longrightarrow> vmul a b ! i = a ! i * b ! i"
  by (simp add: vmul_def)

lemma positive_nth: "positive a \<longleftrightarrow> (\<forall>i<length a. 0 < a ! i)"
  by (simp add: positive_def list_all_length)

lemma pos_mat_kernel:
  "length Phi = nr \<Longrightarrow> list_all (\<lambda>row. length row = nc) Phi \<Longrightarrow> pos_mat nr nc (K_x_y \<sigma> Phi)"
  by (simp add: pos_mat_def K_x_y_def list_all_length)

lemma dot_pos:
  assumes "length a = n" "length b = n" "0 < n" "\<forall>i<n. 0 < a ! i" "\<forall>i<n. 0 < b ! i"
  shows "0 < dot a b"
proof -
  have "dot a b = (\<Sum>i<n. a ! i * b ! i)" using assms by (simp add: dot_sum)
  also have "\<dots> > 0" using assms by (intro sum_pos) auto
  finally show ?thesis .
qed

lemma length_scale [simp]: "length (scale K A B) = min (length K) (length A)"
  by (simp add: scale_def)

lemma nth_scale:
  "x < length K \<Longrightarrow> x < length A \<Longrightarrow> y < length (K ! x) \<Longrightarrow> y < length B \<Longrightarrow>
   scale K A B ! x ! y = K ! x ! y * A ! x * B ! y"
  by (simp add: scale_def)

lemma length_scale_row:
  "x < length K \<Longrightarrow> x < length A \<Longrightarrow> length (scale K A B ! x) = min (length (K ! x)) (length B)"
  by (simp add: scale_def)

lemma sum_list_column: "sum_list (column M j) = (\<Sum>i<length M. M ! i ! j)"
  by (simp add: sum_list_sum_nth atLeast0LessThan)

lemma nth_col_sums: "j < nc \<Longrightarrow> col_sums nc M ! j = (\<Sum>i<length M. M ! i ! j)"
  by (simp add: col_sums_def sum_list_column)

lemma nth_row_sums: "i < length M \<Longrightarrow> row_sums M ! i = (\<Sum>j<length (M ! i). M ! i ! j)"
  by (simp add: row_sums_def sum_list_sum_nth atLeast0LessThan)

section \<open>The matrix IPFP loop\<close>

lemma pass_A_props:
  assumes "pos_mat (nbx P) (nby P) K" "shaped P" "positive (n_x P)"
    "length B0 = nby P" "positive B0"
  shows "length (pass_A K P B0) = nbx P"
    and "\<forall>x<nbx P. pass_A K P B0 ! x = n_x P ! x / dot (K ! x) B0"
    and "\<forall>x<nbx P. 0 < dot (K ! x) B0"
    and "\<forall>x<nbx P. 0 < pass_A K P B0 ! x"
proof -
  show len: "length (pass_A K P B0) = nbx P"
    using assms by (simp add: pass_A_def shaped_def pos_mat_def)
  show eq: "\<forall>x<nbx P. pass_A K P B0 ! x = n_x P ! x / dot (K ! x) B0"
    using assms by (simp add: pass_A_def shaped_def pos_mat_def)
  show pos: "\<forall>x<nbx P. 0 < dot (K ! x) B0"
    using assms by (auto intro!: dot_pos [where n = "nby P"] simp: shaped_def pos_mat_def positive_nth)
  show "\<forall>x<nbx P. 0 < pass_A K P B0 ! x"
    using eq pos assms by (simp add: positive_nth shaped_def)
qed

lemma pass_KA_props:
  assumes "pos_mat (nbx P) (nby P) K" "shaped P" "positive (n_x P)"
    "length B0 = nby P" "positive B0"
  shows "length (pass_KA K P B0) = nby P"
    and "\<forall>y<nby P. pass_KA K P B0 ! y = (\<Sum>x<nbx P. pass_A K P B0 ! x * K ! x ! y)"
    and "\<forall>y<nby P. 0 < pass_KA K P B0 ! y"
proof -
  note A = pass_A_props [OF assms]
  show "length (pass_KA K P B0) = nby P" by (simp add: pass_KA_def)
  show eq: "\<forall>y<nby P. pass_KA K P B0 ! y = (\<Sum>x<nbx P. pass_A K P B0 ! x * K ! x ! y)"
    using A(1) assms(1) by (simp add: pass_KA_def dot_sum pos_mat_def)
  show "\<forall>y<nby P. 0 < pass_KA K P B0 ! y"
  proof (intro allI impI)
    fix y assume y: "y < nby P"
    have "0 < (\<Sum>x<nbx P. pass_A K P B0 ! x * K ! x ! y)"
      using A(4) assms(1,2) y by (intro sum_pos) (auto simp: pos_mat_def shaped_def)
    then show "0 < pass_KA K P B0 ! y" using eq y by simp
  qed
qed


lemma after_pass_body:
  "length (mB s) = nby P \<Longrightarrow> positive (mB s) \<Longrightarrow> after_pass K P (mB s) (matrix_body K P s)"
  by (simp add: after_pass_def matrix_body_def Let_def pass_A_def pass_KA_def)

lemma after_pass_mB:
  assumes "pos_mat (nbx P) (nby P) K" "shaped P" "positive (n_x P)" "positive (m_y P)"
    "after_pass K P B0 s"
  shows "length (mB s) = nby P \<and> positive (mB s)"
proof -
  have B0: "length B0 = nby P" "positive B0" using assms(5) by (simp_all add: after_pass_def)
  note KA = pass_KA_props [OF assms(1-3) B0]
  have mB: "mB s = vdiv (m_y P) (pass_KA K P B0)" using assms(5) by (simp add: after_pass_def)
  have len: "length (m_y P) = nby P" using assms(2) by (simp add: shaped_def)
  show ?thesis
    using KA(1,3) assms(4) len unfolding mB by (simp add: positive_nth)
qed

lemma matrix_loop_after_pass:
  "pos_mat (nbx P) (nby P) K \<Longrightarrow> shaped P \<Longrightarrow> positive (n_x P) \<Longrightarrow> positive (m_y P) \<Longrightarrow>
   length (mB s) = nby P \<Longrightarrow> positive (mB s) \<Longrightarrow>
   (tol < merror s \<and> mite s < maxite) \<or> (\<exists>B0. after_pass K P B0 s) \<Longrightarrow>
   \<exists>B0. after_pass K P B0 (matrix_loop K P tol maxite s)"
proof (induction K P tol maxite s rule: matrix_loop.induct)
  case (1 K P tol maxite s)
  show ?case
  proof (cases "tol < merror s \<and> mite s < maxite")
    case True
    have ap: "after_pass K P (mB s) (matrix_body K P s)"
      using "1.prems"(5,6) by (rule after_pass_body)
    have inv: "length (mB (matrix_body K P s)) = nby P \<and> positive (mB (matrix_body K P s))"
      using after_pass_mB [OF "1.prems"(1-4) ap] .
    have "\<exists>B0. after_pass K P B0 (matrix_loop K P tol maxite (matrix_body K P s))"
      using "1.IH" True inv ap "1.prems"(1-4) by blast
    then show ?thesis using True by (subst matrix_loop.simps) simp
  next
    case False
    then show ?thesis using "1.prems"(7) by (subst matrix_loop.simps) auto
  qed
qed

lemma matrix_loop_init_after_pass:
  assumes "pos_mat (nbx P) (nby P) K" "shaped P" "positive (n_x P)" "positive (m_y P)" "0 < maxite"
  shows "\<exists>B0. after_pass K P B0 (matrix_loop K P tol maxite (matrix_init P tol))"
  using assms
  by (intro matrix_loop_after_pass) (simp_all add: matrix_init_def positive_def list_all_length)

lemma after_pass_col_sums:
  assumes K: "pos_mat (nbx P) (nby P) K" and P: "shaped P" "positive (n_x P)" "positive (m_y P)"
    and ap: "after_pass K P B0 s" and A: "mA s = Some A"
  shows "col_sums (nby P) (scale K A (mB s)) = m_y P"
proof (rule nth_equalityI)
  have B0: "length B0 = nby P" "positive B0" using ap by (simp_all add: after_pass_def)
  note pA = pass_A_props [OF K P(1,2) B0]
  note pKA = pass_KA_props [OF K P(1,2) B0]
  have Aeq: "A = pass_A K P B0" using ap A by (simp add: after_pass_def)
  have Beq: "mB s = vdiv (m_y P) (pass_KA K P B0)" using ap by (simp add: after_pass_def)
  have lenm: "length (m_y P) = nby P" using P(1) by (simp add: shaped_def)
  have lenK: "length K = nbx P" "\<forall>x<nbx P. length (K ! x) = nby P"
    using K by (simp_all add: pos_mat_def)
  show "length (col_sums (nby P) (scale K A (mB s))) = length (m_y P)"
    using lenm by (simp add: col_sums_def)
  fix y assume "y < length (col_sums (nby P) (scale K A (mB s)))"
  then have y: "y < nby P" by (simp add: col_sums_def)
  have "col_sums (nby P) (scale K A (mB s)) ! y
        = (\<Sum>x<nbx P. scale K A (mB s) ! x ! y)"
    using y lenK pA(1) by (simp add: nth_col_sums Aeq)
  also have "\<dots> = (\<Sum>x<nbx P. K ! x ! y * pass_A K P B0 ! x * (m_y P ! y / pass_KA K P B0 ! y))"
    using y lenK pA(1) pKA(1) lenm by (intro sum.cong) (simp_all add: nth_scale Aeq Beq)
  also have "\<dots> = (\<Sum>x<nbx P. pass_A K P B0 ! x * K ! x ! y) * (m_y P ! y / pass_KA K P B0 ! y)"
    by (simp only: sum_distrib_right [symmetric] mult.commute [of "K ! _ ! y"])
  also have "\<dots> = m_y P ! y"
    using pKA(2,3) y by (simp add: less_imp_neq [THEN not_sym])
  finally show "col_sums (nby P) (scale K A (mB s)) ! y = m_y P ! y" .
qed


lemma Max_map_le_iff:
  "xs \<noteq> [] \<Longrightarrow> Max (set (map f xs)) \<le> (c::real) \<longleftrightarrow> (\<forall>i<length xs. f (xs ! i) \<le> c)"
  by (subst Max_le_iff) (auto simp: all_set_conv_all_nth)

lemma Max_map_less_iff:
  "xs \<noteq> [] \<Longrightarrow> Max (set (map f xs)) < (c::real) \<longleftrightarrow> (\<forall>i<length xs. f (xs ! i) < c)"
  by (subst Max_less_iff) (auto simp: all_set_conv_all_nth)

lemma after_pass_ratio:
  assumes K: "pos_mat (nbx P) (nby P) K" and P: "shaped P" "positive (n_x P)" "positive (m_y P)"
    and ap: "after_pass K P B0 s" and err: "merror s \<le> tol"
  shows "\<forall>y<nby P. pass_KA K P B0 ! y * B0 ! y \<le> (1 + tol) * m_y P ! y"
proof (intro allI impI)
  fix y assume y: "y < nby P"
  have B0: "length B0 = nby P" "positive B0" using ap by (simp_all add: after_pass_def)
  note pKA = pass_KA_props [OF K P(1,2) B0]
  have lenm: "length (m_y P) = nby P" using P(1) by (simp add: shaped_def)
  let ?r = "vdiv (vmul (pass_KA K P B0) B0) (m_y P)"
  have len: "length ?r = nby P" using pKA(1) B0(1) lenm by simp
  have ne: "?r \<noteq> []" by (metis len y list.size(3) not_less_zero)
  have "Max (set (map (\<lambda>t. \<bar>t\<bar> - 1) ?r)) \<le> tol"
    using ap err by (simp add: after_pass_def)
  then have "\<forall>i<length ?r. \<bar>?r ! i\<bar> - 1 \<le> tol"
    by (rule Max_map_le_iff [OF ne, THEN iffD1])
  moreover have "y < length ?r" using y len by (simp only:)
  ultimately have "\<bar>?r ! y\<bar> - 1 \<le> tol"
    by blast
  moreover have "?r ! y = pass_KA K P B0 ! y * B0 ! y / m_y P ! y"
    using y pKA(1) B0(1) lenm by simp
  moreover have "0 < m_y P ! y" using P(3) y lenm by (simp add: positive_nth)
  moreover have "0 < pass_KA K P B0 ! y * B0 ! y"
    using pKA(3) B0 y by (simp add: positive_nth)
  ultimately have "pass_KA K P B0 ! y * B0 ! y / m_y P ! y \<le> 1 + tol"
    by (simp add: abs_of_pos)
  then show "pass_KA K P B0 ! y * B0 ! y \<le> (1 + tol) * m_y P ! y"
    using \<open>0 < m_y P ! y\<close> by (simp add: pos_divide_le_eq)
qed


lemma share_bound:
  fixes R N :: "nat \<Rightarrow> real"
  assumes R: "(\<Sum>i<n. R i) = 1" and N: "(\<Sum>i<n. N i) = 1"
    and low: "\<forall>i<n. N i / (1 + tol) \<le> R i" and pos: "\<forall>i<n. 0 < N i"
    and tol: "0 < tol" and x: "x < n"
  shows "\<bar>R x - N x\<bar> < tol"
proof -
  let ?S = "{..<n} - {x}"
  have xin: "x \<in> {..<n}" using x by simp
  have Rsplit: "(\<Sum>i<n. R i) = R x + (\<Sum>i\<in>?S. R i)"
    by (rule sum.remove [OF _ xin]) simp
  have Nsplit: "(\<Sum>i<n. N i) = N x + (\<Sum>i\<in>?S. N i)"
    by (rule sum.remove [OF _ xin]) simp
  have "(\<Sum>i\<in>?S. N i / (1 + tol)) \<le> (\<Sum>i\<in>?S. R i)"
    using low by (intro sum_mono) auto
  then have "(\<Sum>i\<in>?S. N i) / (1 + tol) \<le> (\<Sum>i\<in>?S. R i)"
    by (simp add: sum_divide_distrib)
  moreover have "(\<Sum>i\<in>?S. N i) = 1 - N x" using Nsplit N by linarith
  moreover have "(\<Sum>i\<in>?S. R i) = 1 - R x" using Rsplit R by linarith
  ultimately have others: "(1 - N x) / (1 + tol) \<le> 1 - R x"
    by simp
  have "0 \<le> (\<Sum>i\<in>?S. N i)" using pos by (intro sum_nonneg) (auto intro: less_imp_le)
  then have N1: "N x \<le> 1" using Nsplit N by linarith
  have N0: "0 < N x" using pos x by simp
  have t1: "0 < 1 + tol" using tol by simp
  have lowx: "N x / (1 + tol) \<le> R x" using low x by simp
  have a: "N x - N x / (1 + tol) < tol"
  proof -
    have "N x - N x / (1 + tol) = N x * tol / (1 + tol)" using t1 by (simp add: field_simps)
    also have "\<dots> < tol" using t1 tol N1 N0
      by (simp add: pos_divide_less_eq)
    finally show ?thesis .
  qed
  have b: "1 - (1 - N x) / (1 + tol) - N x < tol"
  proof -
    have "1 - (1 - N x) / (1 + tol) - N x = (1 - N x) * tol / (1 + tol)"
      using t1 by (simp add: field_simps)
    also have "\<dots> < tol" using t1 tol N1 N0
      by (simp add: pos_divide_less_eq)
    finally show ?thesis .
  qed
  show ?thesis using a b lowx others by linarith
qed


lemma row_col_total:
  assumes "length M = nr" "\<forall>i<nr. length (M ! i) = nc"
  shows "(\<Sum>i<nr. row_sums M ! i) = (\<Sum>j<nc. col_sums nc M ! j)"
proof -
  have "(\<Sum>i<nr. row_sums M ! i) = (\<Sum>i<nr. \<Sum>j<nc. M ! i ! j)"
    using assms by (intro sum.cong) (simp_all add: nth_row_sums)
  also have "\<dots> = (\<Sum>j<nc. \<Sum>i<nr. M ! i ! j)" by (rule sum.swap)
  also have "\<dots> = (\<Sum>j<nc. col_sums nc M ! j)"
    using assms by (intro sum.cong) (simp_all add: nth_col_sums)
  finally show ?thesis .
qed

lemma scale_shape:
  assumes "pos_mat nr nc K" "length A = nr" "length B = nc"
  shows "length (scale K A B) = nr" and "\<forall>x<nr. length (scale K A B ! x) = nc"
  using assms by (simp_all add: pos_mat_def length_scale_row)

lemma after_pass_row_low:
  assumes K: "pos_mat (nbx P) (nby P) K" and P: "shaped P" "positive (n_x P)" "positive (m_y P)"
    and ap: "after_pass K P B0 s" and err: "merror s \<le> tol" and tol: "0 < tol"
    and A: "mA s = Some A" and x: "x < nbx P"
  shows "n_x P ! x / (1 + tol) \<le> row_sums (scale K A (mB s)) ! x"
proof -
  have B0: "length B0 = nby P" "positive B0" using ap by (simp_all add: after_pass_def)
  note pA = pass_A_props [OF K P(1,2) B0]
  note pKA = pass_KA_props [OF K P(1,2) B0]
  note ratio = after_pass_ratio [OF K P ap err]
  have Aeq: "A = pass_A K P B0" using ap A by (simp add: after_pass_def)
  have Beq: "mB s = vdiv (m_y P) (pass_KA K P B0)" using ap by (simp add: after_pass_def)
  have lenm: "length (m_y P) = nby P" using P(1) by (simp add: shaped_def)
  have lenB: "length (mB s) = nby P" using Beq pKA(1) lenm by simp
  have lenK: "length K = nbx P" "\<forall>x<nbx P. length (K ! x) = nby P"
    "\<forall>x<nbx P. \<forall>y<nby P. 0 < K ! x ! y"
    using K by (simp_all add: pos_mat_def)
  have t1: "0 < 1 + tol" using tol by simp
  have cell: "K ! x ! y * A ! x * B0 ! y / (1 + tol) \<le> scale K A (mB s) ! x ! y"
    if y: "y < nby P" for y
  proof -
    have mu: "scale K A (mB s) ! x ! y = K ! x ! y * A ! x * (m_y P ! y / pass_KA K P B0 ! y)"
      using x y lenK pA(1) pKA(1) lenm by (simp add: nth_scale Aeq Beq)
    have ka: "0 < pass_KA K P B0 ! y" using pKA(3) y by simp
    have "pass_KA K P B0 ! y * B0 ! y \<le> (1 + tol) * m_y P ! y" using ratio y by simp
    then have "B0 ! y / (1 + tol) \<le> m_y P ! y / pass_KA K P B0 ! y"
      using ka t1 by (simp add: field_simps)
    moreover have "0 \<le> K ! x ! y * A ! x"
      using lenK(3) pA(4) x y by (simp add: Aeq less_imp_le)
    ultimately have "K ! x ! y * A ! x * (B0 ! y / (1 + tol))
        \<le> K ! x ! y * A ! x * (m_y P ! y / pass_KA K P B0 ! y)"
      by (rule mult_left_mono)
    then show ?thesis using mu by simp
  qed
  have "0 < dot (K ! x) B0" using pA(3) x by simp
  moreover have "A ! x = n_x P ! x / dot (K ! x) B0" using pA(2) x by (simp add: Aeq)
  ultimately have "n_x P ! x / (1 + tol) = (A ! x * dot (K ! x) B0) / (1 + tol)"
    by simp
  also have "\<dots> = (\<Sum>y<nby P. K ! x ! y * A ! x * B0 ! y / (1 + tol))"
    using lenK(2) B0(1) x
    by (simp add: dot_sum sum_distrib_left sum_divide_distrib mult.commute mult.left_commute)
  also have "\<dots> \<le> (\<Sum>y<nby P. scale K A (mB s) ! x ! y)"
    using cell by (intro sum_mono) simp
  also have "\<dots> = row_sums (scale K A (mB s)) ! x"
    using x lenK pA(1) lenB by (simp add: nth_row_sums length_scale_row Aeq)
  finally show ?thesis .
qed

lemma residual_less:
  assumes "length s = n" "length t = n" "0 < n" "\<forall>i<n. \<bar>s ! i - t ! i\<bar> < c"
  shows "residual s t < c"
proof -
  have ne: "zip s t \<noteq> []" using assms(1-3) by (cases s; cases t) auto
  have "\<forall>i<length (zip s t). (\<lambda>(a, b). \<bar>a - b\<bar>) (zip s t ! i) < c"
    using assms by simp
  then show ?thesis
    unfolding residual_def by (rule Max_map_less_iff [OF ne, THEN iffD2])
qed

text \<open>With a positive cap and a well-shaped problem, \<^verbatim>\<open>matrixIPFP\<close> returns.\<close>

lemma matrixIPFP_unfold:
  assumes "0 < maxite" "shaped P"
    and "mA (matrix_loop (K_x_y \<sigma> (Phi_x_y P)) P tol maxite (matrix_init P tol)) = Some A"
  shows "\<exists>r. matrixIPFP P \<sigma> tol maxite = Inr r \<and>
     mu_x_y r = scale (K_x_y \<sigma> (Phi_x_y P)) A
        (mB (matrix_loop (K_x_y \<sigma> (Phi_x_y P)) P tol maxite (matrix_init P tol)))
     \<and> ite_out r = mite (matrix_loop (K_x_y \<sigma> (Phi_x_y P)) P tol maxite (matrix_init P tol))"
  using assms by (simp add: matrixIPFP_def Let_def shaped_def)

subsection \<open>The uniform market, run by hand\<close>

lemma uniform_simps:
  "Phi_x_y uniform_market = [[0, 0], [0, 0]]" "n_x uniform_market = [1/2, 1/2]"
  "m_y uniform_market = [1/2, 1/2]" "nbx uniform_market = 2" "nby uniform_market = 2"
  by (simp_all add: uniform_market_def)

lemma uniform_shaped:
  "shaped uniform_market" "positive (n_x uniform_market)" "positive (m_y uniform_market)"
  by (simp_all add: shaped_def positive_def uniform_simps)

lemma uniform_kernel: "K_x_y 1 [[0, 0], [0, 0]] = [[1, 1], [1, 1]]"
  by (simp add: K_x_y_def)

lemma uniform_body:
  "matrix_body [[1, 1], [1, 1]] uniform_market (matrix_init uniform_market (1/100))
   = \<lparr> mA = Some [1/4, 1/4], mB = [1, 1], merror = 0, mite = 1 \<rparr>"
  by (simp add: matrix_body_def matrix_init_def uniform_simps Let_def vdiv_def vmul_def
      mat_vec_def vec_mat_def dot_def column_def numeral_2_eq_2)

lemma uniform_loop:
  "matrix_loop [[1, 1], [1, 1]] uniform_market (1/100) 5 (matrix_init uniform_market (1/100))
   = \<lparr> mA = Some [1/4, 1/4], mB = [1, 1], merror = 0, mite = 1 \<rparr>"
  apply (subst matrix_loop.simps)
  apply (simp add: uniform_body)
  apply (subst matrix_loop.simps)
  apply (simp add: matrix_init_def)
  done

subsection \<open>Column sums of the returned coupling\<close>

text \<open>
  Claim C10. In exact real arithmetic, whether the tolerance was met or the iteration cap
  was hit, the coupling \<^verbatim>\<open>matrixIPFP\<close> returns after at least one pass of its loop has
  column sums exactly \<open>m\<close>: the column scaling \<^verbatim>\<open>B_y = self.m_y / KA_y\<close> is the last
  update before the coupling is formed. The problem is well shaped with positive
  marginals, and the cap is positive, so that the loop runs at least once.
\<close>

theorem matrixIPFP_column_sums:
  assumes "shaped P" "positive (n_x P)" "positive (m_y P)" "0 < maxite"
  shows "\<exists>r. matrixIPFP P \<sigma> tol maxite = Inr r \<and> col_sums (nby P) (mu_x_y r) = m_y P"
proof -
  let ?K = "K_x_y \<sigma> (Phi_x_y P)"
  let ?s = "matrix_loop ?K P tol maxite (matrix_init P tol)"
  have K: "pos_mat (nbx P) (nby P) ?K"
    using assms(1) by (intro pos_mat_kernel) (simp_all add: shaped_def)
  obtain B0 where ap: "after_pass ?K P B0 ?s"
    using matrix_loop_init_after_pass [OF K assms] by blast
  then have A: "mA ?s = Some (pass_A ?K P B0)" by (simp add: after_pass_def)
  obtain r where r: "matrixIPFP P \<sigma> tol maxite = Inr r"
      "mu_x_y r = scale ?K (pass_A ?K P B0) (mB ?s)"
    using matrixIPFP_unfold [OF assms(4,1) A] by blast
  have "col_sums (nby P) (mu_x_y r) = m_y P"
    unfolding r(2) by (rule after_pass_col_sums [OF K assms(1-3) ap A])
  with r(1) show ?thesis by blast
qed

text \<open>The uniform market satisfies the hypotheses, and its column sums are as stated.\<close>

theorem matrixIPFP_column_sums_witness:
  "shaped uniform_market \<and> positive (n_x uniform_market) \<and> positive (m_y uniform_market) \<and>
   (\<exists>r. matrixIPFP uniform_market 1 (1/100) 5 = Inr r \<and>
        col_sums (nby uniform_market) (mu_x_y r) = m_y uniform_market)"
  using matrixIPFP_column_sums [OF uniform_shaped, of 5 1 "1/100"] uniform_shaped by simp

subsection \<open>Marginals of a converged coupling\<close>

text \<open>The skewed market at \<open>\<sigma> = 1\<close>, tolerance \<open>1/5\<close>: the loop leaves after one pass.\<close>

lemma skewed_simps:
  "nby skewed_market = 2" "nbx skewed_market = 2" "n_x skewed_market = [100, 100]"
  "m_y skewed_market = [100, 100]"
  by (simp_all add: skewed_market_def)

lemma skewed_kernel: "K_x_y 1 (Phi_x_y skewed_market) = [[2, 1], [1, 1]]"
  by (simp add: K_x_y_def skewed_market_def)

lemma skewed_body:
  "matrix_body [[2, 1], [1, 1]] skewed_market (matrix_init skewed_market (1/5))
   = \<lparr> mA = Some [100/3, 50], mB = [6/7, 6/5], merror = 1/6, mite = 1 \<rparr>"
  by (simp add: matrix_body_def matrix_init_def skewed_market_def Let_def vdiv_def vmul_def
      mat_vec_def vec_mat_def dot_def column_def numeral_2_eq_2)

lemma skewed_loop:
  "matrix_loop [[2, 1], [1, 1]] skewed_market (1/5) 10 (matrix_init skewed_market (1/5))
   = \<lparr> mA = Some [100/3, 50], mB = [6/7, 6/5], merror = 1/6, mite = 1 \<rparr>"
  apply (subst matrix_loop.simps)
  apply (simp add: skewed_body)
  apply (subst matrix_loop.simps)
  apply (simp add: matrix_init_def)
  done

lemma skewed_result:
  "(case matrixIPFP skewed_market 1 (1/5) 10 of
      Inl e \<Rightarrow> False
    | Inr r \<Rightarrow> ite_out r = 1 \<and> row_sums (mu_x_y r) = [680/7, 720/7]
        \<and> residual (row_sums (mu_x_y r)) (n_x skewed_market) = 20/7)"
  by (simp add: matrixIPFP_def skewed_kernel skewed_loop Let_def scale_def row_sums_def
      skewed_simps residual_def)

text \<open>
  Claim C1 as stated fails. On the skewed market (positive marginals, \<open>\<sigma> = 1\<close>, tolerance
  \<open>1/5\<close>, cap \<open>10\<close>) the loop leaves after its first pass with residual \<open>1/6\<close>, below
  the tolerance and before the cap, and the returned coupling has row sums
  \<open>680/7\<close> and \<open>720/7\<close> against \<open>n = 100\<close>: a deviation of \<open>20/7\<close>, not below \<open>1/5\<close>.
  The loop tests a relative residual of the columns before the last column scaling; the
  claim bounds an absolute residual of the rows after it.
\<close>

theorem matrixIPFP_marginals_counterexample:
  "shaped skewed_market \<and> positive (n_x skewed_market) \<and> positive (m_y skewed_market) \<and>
   merror (matrix_loop (K_x_y 1 (Phi_x_y skewed_market)) skewed_market (1/5) 10
      (matrix_init skewed_market (1/5))) \<le> 1/5 \<and>
   mite (matrix_loop (K_x_y 1 (Phi_x_y skewed_market)) skewed_market (1/5) 10
      (matrix_init skewed_market (1/5))) < 10 \<and>
   (case matrixIPFP skewed_market 1 (1/5) 10 of
      Inl e \<Rightarrow> False
    | Inr r \<Rightarrow> \<not> residual (row_sums (mu_x_y r)) (n_x skewed_market) < 1/5)"
proof -
  have a: "shaped skewed_market" "positive (n_x skewed_market)" "positive (m_y skewed_market)"
    by (simp_all add: shaped_def positive_def skewed_market_def)
  have b: "merror (matrix_loop (K_x_y 1 (Phi_x_y skewed_market)) skewed_market (1/5) 10
      (matrix_init skewed_market (1/5))) \<le> 1/5"
    "mite (matrix_loop (K_x_y 1 (Phi_x_y skewed_market)) skewed_market (1/5) 10
      (matrix_init skewed_market (1/5))) < 10"
    by (simp_all add: skewed_kernel skewed_loop)
  have c: "(case matrixIPFP skewed_market 1 (1/5) 10 of
      Inl e \<Rightarrow> False
    | Inr r \<Rightarrow> \<not> residual (row_sums (mu_x_y r)) (n_x skewed_market) < 1/5)"
    using skewed_result by (auto split: sum.splits)
  show ?thesis using a b c by simp
qed

text \<open>
  Claim C1, amended. For a well-shaped problem whose positive marginals each sum to one,
  and a positive tolerance: whenever the loop of \<^verbatim>\<open>matrixIPFP\<close> ends with its residual at
  or below the tolerance, the returned coupling has \<open>max |row sums - n| < tol\<close> and
  \<open>max |column sums - m| < tol\<close> (the column sums are exact).
\<close>

theorem matrixIPFP_converged_marginals:
  assumes P: "shaped P" "positive (n_x P)" "positive (m_y P)"
    and unit: "sum_list (n_x P) = 1" "sum_list (m_y P) = 1"
    and tol: "0 < tol" and cap: "0 < maxite"
    and exit: "merror (matrix_loop (K_x_y \<sigma> (Phi_x_y P)) P tol maxite (matrix_init P tol)) \<le> tol"
  shows "\<exists>r. matrixIPFP P \<sigma> tol maxite = Inr r \<and>
           residual (row_sums (mu_x_y r)) (n_x P) < tol \<and>
           residual (col_sums (nby P) (mu_x_y r)) (m_y P) < tol"
proof -
  let ?K = "K_x_y \<sigma> (Phi_x_y P)"
  let ?s = "matrix_loop ?K P tol maxite (matrix_init P tol)"
  have K: "pos_mat (nbx P) (nby P) ?K"
    using P(1) by (intro pos_mat_kernel) (simp_all add: shaped_def)
  obtain B0 where ap: "after_pass ?K P B0 ?s"
    using matrix_loop_init_after_pass [OF K P cap] by blast
  then have A: "mA ?s = Some (pass_A ?K P B0)" by (simp add: after_pass_def)
  have B0: "length B0 = nby P" "positive B0" using ap by (simp_all add: after_pass_def)
  obtain r where r: "matrixIPFP P \<sigma> tol maxite = Inr r"
      "mu_x_y r = scale ?K (pass_A ?K P B0) (mB ?s)"
    using matrixIPFP_unfold [OF cap P(1) A] by blast
  let ?mu = "scale ?K (pass_A ?K P B0) (mB ?s)"
  have lens: "length (n_x P) = nbx P" "length (m_y P) = nby P" "0 < nbx P" "0 < nby P"
    using P(1) by (simp_all add: shaped_def)
  have cols: "col_sums (nby P) ?mu = m_y P"
    by (rule after_pass_col_sums [OF K P ap A])
  have lenB: "length (mB ?s) = nby P" using after_pass_mB [OF K P ap] by simp
  have shape: "length ?mu = nbx P" "\<forall>x<nbx P. length (?mu ! x) = nby P"
    using scale_shape [OF K pass_A_props(1) [OF K P(1,2) B0] lenB] by simp_all
  have total: "(\<Sum>x<nbx P. row_sums ?mu ! x) = 1"
    using row_col_total [OF shape] cols unit(2) lens(2) by (simp add: sum_list_lessThan)
  have ntotal: "(\<Sum>x<nbx P. n_x P ! x) = 1"
    using unit(1) lens(1) by (simp add: sum_list_lessThan)
  have low: "\<forall>x<nbx P. n_x P ! x / (1 + tol) \<le> row_sums ?mu ! x"
    using after_pass_row_low [OF K P ap exit tol A] by blast
  have npos: "\<forall>x<nbx P. 0 < n_x P ! x" using P(2) lens(1) by (simp add: positive_nth)
  have rows: "\<forall>x<nbx P. \<bar>row_sums ?mu ! x - n_x P ! x\<bar> < tol"
    using share_bound [OF total ntotal low npos tol] by blast
  have "residual (row_sums ?mu) (n_x P) < tol"
    using rows lens shape(1)
    by (intro residual_less [where n = "nbx P"]) (simp_all add: row_sums_def)
  moreover have "residual (col_sums (nby P) ?mu) (m_y P) < tol"
    unfolding cols using lens tol by (intro residual_less [where n = "nby P"]) simp_all
  ultimately show ?thesis using r by auto
qed

text \<open>The uniform market converges in one pass and meets every hypothesis.\<close>

theorem matrixIPFP_converged_marginals_witness:
  "merror (matrix_loop (K_x_y 1 (Phi_x_y uniform_market)) uniform_market (1/100) 5
      (matrix_init uniform_market (1/100))) \<le> 1/100 \<and>
   sum_list (n_x uniform_market) = 1 \<and> sum_list (m_y uniform_market) = 1 \<and>
   (\<exists>r. matrixIPFP uniform_market 1 (1/100) 5 = Inr r \<and>
        residual (row_sums (mu_x_y r)) (n_x uniform_market) < 1/100 \<and>
        residual (col_sums (nby uniform_market) (mu_x_y r)) (m_y uniform_market) < 1/100)"
proof -
  have e: "merror (matrix_loop (K_x_y 1 (Phi_x_y uniform_market)) uniform_market (1/100) 5
      (matrix_init uniform_market (1/100))) \<le> 1/100"
    by (simp add: uniform_simps(1) uniform_kernel uniform_loop)
  have s: "sum_list (n_x uniform_market) = 1" "sum_list (m_y uniform_market) = 1"
    by (simp_all add: uniform_simps)
  show ?thesis
    using e s matrixIPFP_converged_marginals [OF uniform_shaped s _ _ e] by simp
qed

section \<open>Matrix IPFP against log-domain IPFP\<close>

text \<open>The lopsided market at \<open>\<sigma> = 1\<close>, tolerance \<open>1/10\<close>, cap \<open>10\<close>, run by both variants.\<close>

lemma lopsided_simps:
  "nby lopsided_market = 2" "nbx lopsided_market = 1" "n_x lopsided_market = [1]"
  "m_y lopsided_market = [1/10, 9/10]" "Phi_x_y lopsided_market = [[0, ln 19]]"
  by (simp_all add: lopsided_market_def)

lemma lopsided_kernel: "K_x_y 1 [[0, ln 19]] = [[1, 19]]"
  by (simp add: K_x_y_def)

lemma lopsided_matrix_body:
  "matrix_body [[1, 19]] lopsided_market (matrix_init lopsided_market (1/10))
   = \<lparr> mA = Some [1/20], mB = [2, 18/19], merror = 1/18, mite = 1 \<rparr>"
  by (simp add: matrix_body_def matrix_init_def lopsided_simps Let_def vdiv_def vmul_def
      mat_vec_def vec_mat_def dot_def column_def numeral_2_eq_2)

lemma lopsided_matrix_loop:
  "matrix_loop [[1, 19]] lopsided_market (1/10) 10 (matrix_init lopsided_market (1/10))
   = \<lparr> mA = Some [1/20], mB = [2, 18/19], merror = 1/18, mite = 1 \<rparr>"
  apply (subst matrix_loop.simps)
  apply (simp add: lopsided_matrix_body)
  apply (subst matrix_loop.simps)
  apply (simp add: matrix_init_def)
  done

lemma lopsided_log_body1:
  "log_body 1 lopsided_market (log_init lopsided_market (1/10))
   = \<lparr> lu = Some [ln 20], lv = [ln 10 - ln 20, ln 19 - ln 20 - ln (9/10)],
       lerror = 1/2, lite = Suc 0 \<rparr>"
  by (simp add: log_body_def log_init_def lopsided_simps Let_def vdiv_def vmul_def neg_log_def
      numeral_2_eq_2 exp_diff exp_minus exp_add ln_div)

lemma lopsided_log_body2:
  "log_body 1 lopsided_market
     \<lparr> lu = Some [ln 20], lv = [ln 10 - ln 20, ln 19 - ln 20 - ln (9/10)],
       lerror = 1/2, lite = Suc 0 \<rparr>
   = \<lparr> lu = Some [ln 20], lv = [ln 10 - ln 20, ln 19 - ln 20 - ln (9/10)],
       lerror = 0, lite = 2 \<rparr>"
  by (simp add: log_body_def lopsided_simps Let_def vdiv_def vmul_def neg_log_def
      numeral_2_eq_2 exp_diff exp_minus exp_add ln_div)

lemma lopsided_log_loop2:
  "log_loop 1 lopsided_market (1/10) 10
     \<lparr> lu = Some [ln 20], lv = [ln 10 - ln 20, ln 19 - ln 20 - ln (9/10)],
       lerror = 0, lite = 2 \<rparr>
   = \<lparr> lu = Some [ln 20], lv = [ln 10 - ln 20, ln 19 - ln 20 - ln (9/10)],
       lerror = 0, lite = 2 \<rparr>"
  by (subst log_loop.simps) simp

lemma lopsided_log_loop1:
  "log_loop 1 lopsided_market (1/10) 10
     \<lparr> lu = Some [ln 20], lv = [ln 10 - ln 20, ln 19 - ln 20 - ln (9/10)],
       lerror = 1/2, lite = Suc 0 \<rparr>
   = \<lparr> lu = Some [ln 20], lv = [ln 10 - ln 20, ln 19 - ln 20 - ln (9/10)],
       lerror = 0, lite = 2 \<rparr>"
  by (subst log_loop.simps) (simp add: lopsided_log_body2 lopsided_log_loop2)

lemma lopsided_log_loop:
  "log_loop 1 lopsided_market (1/10) 10 (log_init lopsided_market (1/10))
   = \<lparr> lu = Some [ln 20], lv = [ln 10 - ln 20, ln 19 - ln 20 - ln (9/10)],
       lerror = 0, lite = 2 \<rparr>"
  by (subst log_loop.simps)
     (simp add: lopsided_log_body1 lopsided_log_loop1, simp add: log_init_def)

text \<open>
  Claim C3, at the lopsided market (marginals summing to one, \<open>\<sigma> = 1\<close>, tolerance
  \<open>1/10\<close>, cap \<open>10\<close>). After the first pass the ratios \<^verbatim>\<open>KA_y * B_y / m_y\<close> are \<open>1/2\<close>
  and \<open>19/18\<close>. \<^verbatim>\<open>matrixIPFP\<close> computes \<^verbatim>\<open>(abs(...)-1).max()\<close>, that is \<open>1/18\<close>, and
  leaves the loop after one pass; \<^verbatim>\<open>logdomainIPFP\<close> computes
  \<^verbatim>\<open>np.max(np.abs(... - 1))\<close>, that is \<open>1/2\<close>, and runs a second pass. The two variants
  do not leave their loops after the same number of passes.
\<close>

theorem ipfp_variants_iteration_counts:
  "(case (matrixIPFP lopsided_market 1 (1/10) 10, logdomainIPFP lopsided_market 1 (1/10) 10) of
      (Inr r, Inr r') \<Rightarrow> ite_out r = 1 \<and> ite_out r' = 2
    | _ \<Rightarrow> False)"
  by (simp add: matrixIPFP_def logdomainIPFP_def lopsided_kernel lopsided_matrix_loop
      lopsided_log_loop Let_def lopsided_simps log_result_def)

section \<open>The arguments of the exponential under the log-sum-exp trick\<close>

lemma Max_map_ge:
  "i < length xs \<Longrightarrow> f (xs ! i) \<le> (Max (set (map f xs)) :: real)"
  by (intro Max_ge) auto

lemma length_vstar [simp]: "length (vstar_x rnd P v) = length (Phi_x_y P)"
  by (simp add: vstar_x_def)

lemma length_row_args [simp]: "length (row_args rnd \<sigma> P v) = length (Phi_x_y P)"
  by (simp add: row_args_def)

lemma length_lse_u [simp]: "length (lse_u rnd \<sigma> P v) = min (length (n_x P)) (length (Phi_x_y P))"
  by (simp add: lse_u_def lse_neg_log_def sum_exp_def)

lemma length_ustar [simp]: "length (ustar_y rnd P u) = nby P"
  by (simp add: ustar_y_def)

lemma row_args_nonpos:
  assumes "0 < \<sigma>" "shaped P" "length v = nby P"
  shows "\<forall>a\<in>set (concat (row_args exact \<sigma> P v)). a \<le> 0"
proof -
  have "row_args exact \<sigma> P v ! x ! y \<le> 0" if x: "x < nbx P" and y: "y < nby P" for x y
  proof -
    have len: "length (Phi_x_y P) = nbx P" "length (Phi_x_y P ! x) = nby P"
      using assms(2) x by (simp_all add: shaped_def list_all_length)
    have z: "y < length (zip (Phi_x_y P ! x) v)" using len y assms(3) by simp
    have "(\<lambda>(a, b). a - b) (zip (Phi_x_y P ! x) v ! y) \<le> vstar_x exact P v ! x"
      using x len(1) Max_map_ge [OF z, of "\<lambda>(a, b). a - b"] by (simp add: vstar_x_def)
    then have "Phi_x_y P ! x ! y - v ! y \<le> vstar_x exact P v ! x"
      using len y assms(3) by simp
    moreover have "row_args exact \<sigma> P v ! x ! y = (Phi_x_y P ! x ! y - vstar_x exact P v ! x - v ! y) / \<sigma>"
      using x y len assms(3) by (simp add: row_args_def)
    ultimately show ?thesis using assms(1) by (simp add: divide_le_0_iff)
  qed
  moreover have "length (row_args exact \<sigma> P v ! x) = nby P" if "x < nbx P" for x
    using that assms(2,3) by (simp add: row_args_def shaped_def list_all_length)
  moreover have "length (row_args exact \<sigma> P v) = nbx P" using assms(2) by (simp add: shaped_def)
  ultimately show ?thesis
    by (auto simp: in_set_conv_nth)
qed


lemma col_args_nonpos:
  assumes "0 < \<sigma>" "shaped P" "length u = nbx P"
  shows "\<forall>a\<in>set (concat (col_args exact \<sigma> P u)). a \<le> 0"
proof -
  have len: "length (Phi_x_y P) = nbx P" using assms(2) by (simp add: shaped_def)
  have "col_args exact \<sigma> P u ! y ! x \<le> 0" if x: "x < nbx P" and y: "y < nby P" for x y
  proof -
    have z: "x < length (zip (Phi_x_y P) u)" using len x assms(3) by simp
    have "(\<lambda>(row, ux). row ! y - ux) (zip (Phi_x_y P) u ! x) \<le> ustar_y exact P u ! y"
      using y Max_map_ge [OF z, of "\<lambda>(row, ux). row ! y - ux"] by (simp add: ustar_y_def)
    then have "Phi_x_y P ! x ! y - u ! x \<le> ustar_y exact P u ! y"
      using len x assms(3) by simp
    moreover have "col_args exact \<sigma> P u ! y ! x = (Phi_x_y P ! x ! y - u ! x - ustar_y exact P u ! y) / \<sigma>"
      using x y len assms(3) by (simp add: col_args_def)
    ultimately show ?thesis using assms(1) by (simp add: divide_le_0_iff)
  qed
  moreover have "length (col_args exact \<sigma> P u ! y) = nbx P" if "y < nby P" for y
    using that len assms(3) by (simp add: col_args_def)
  moreover have "length (col_args exact \<sigma> P u) = nby P" by (simp add: col_args_def)
  ultimately show ?thesis
    by (auto simp: in_set_conv_nth)
qed

lemma lse_u_ge:
  assumes s: "0 < \<sigma>" and P: "shaped P" and v: "length v = nby P"
    and n: "positive (n_x P)" "\<forall>t\<in>set (n_x P). t \<le> 1"
    and x: "x < nbx P" and y: "y < nby P"
  shows "Phi_x_y P ! x ! y - v ! y \<le> lse_u exact \<sigma> P v ! x"
proof -
  have len: "length (Phi_x_y P) = nbx P" "length (Phi_x_y P ! x) = nby P" "length (n_x P) = nbx P"
    using P x by (simp_all add: shaped_def list_all_length)
  let ?args = "row_args exact \<sigma> P v ! x"
  have largs: "length ?args = nby P" using len v x by (simp add: row_args_def)
  have arg: "?args ! y = (Phi_x_y P ! x ! y - vstar_x exact P v ! x - v ! y) / \<sigma>"
    using x y len v by (simp add: row_args_def)
  have "exp (?args ! y) \<le> (\<Sum>j<nby P. exp (?args ! j))"
    using y by (intro member_le_sum) (auto intro: less_imp_le)
  also have "\<dots> = sum_list (map exp ?args)"
    using largs by (simp add: sum_list_sum_nth atLeast0LessThan)
  finally have "?args ! y \<le> ln (sum_list (map exp ?args))"
    by (metis exp_gt_zero ln_exp ln_mono less_le_trans)
  then have "\<sigma> * ?args ! y \<le> \<sigma> * ln (sum_list (map exp ?args))"
    using s by simp
  then have a: "Phi_x_y P ! x ! y - vstar_x exact P v ! x - v ! y \<le> \<sigma> * ln (sum_list (map exp ?args))"
    using s arg by simp
  have "0 < n_x P ! x" "n_x P ! x \<le> 1"
    using n x len(3) by (simp_all add: positive_nth)
  then have "ln (n_x P ! x) \<le> 0" by simp
  then have b: "0 \<le> - \<sigma> * ln (n_x P ! x)" using s by (simp add: mult_le_0_iff)
  have "lse_u exact \<sigma> P v ! x = - \<sigma> * ln (n_x P ! x) + vstar_x exact P v ! x + \<sigma> * ln (sum_list (map exp ?args))"
    using x len by (simp add: lse_u_def lse_neg_log_def sum_exp_def)
  then show ?thesis using a b by linarith
qed

lemma err_args_nonpos:
  assumes s: "0 < \<sigma>" and P: "shaped P" and v: "length v = nby P"
    and n: "positive (n_x P)" "\<forall>t\<in>set (n_x P). t \<le> 1"
  shows "\<forall>a\<in>set (err_args exact \<sigma> P (lse_u exact \<sigma> P v) v). a \<le> 0"
proof -
  let ?u = "lse_u exact \<sigma> P v"
  have len: "length (Phi_x_y P) = nbx P" "length (n_x P) = nbx P" "0 < nbx P"
    using P by (simp_all add: shaped_def)
  have lu: "length ?u = nbx P" using len by simp
  have "err_args exact \<sigma> P ?u v ! y \<le> 0" if y: "y < nby P" for y
  proof -
    let ?z = "zip (Phi_x_y P) ?u"
    have ne: "?z \<noteq> []" using len lu by (cases "Phi_x_y P"; cases ?u) auto
    have "\<forall>i<length ?z. (\<lambda>(row, ux). row ! y - ux) (?z ! i) \<le> v ! y"
      using lse_u_ge [OF s P v n _ y] len lu by (simp add: algebra_simps)
    then have "Max (set (map (\<lambda>(row, ux). row ! y - ux) ?z)) \<le> v ! y"
      by (rule Max_map_le_iff [OF ne, THEN iffD2])
    then have "ustar_y exact P ?u ! y \<le> v ! y" using y by (simp add: ustar_y_def)
    moreover have "err_args exact \<sigma> P ?u v ! y = (ustar_y exact P ?u ! y - v ! y) / \<sigma>"
      using y v by (simp add: err_args_def)
    ultimately show ?thesis using s by (simp add: divide_le_0_iff)
  qed
  moreover have "length (err_args exact \<sigma> P ?u v) = nby P" using v by (simp add: err_args_def)
  ultimately show ?thesis by (auto simp: in_set_conv_nth)
qed

lemma lse_shifted_args_nonpos:
  assumes "0 < \<sigma>" "shaped P" "length v = nby P"
  shows "\<forall>a\<in>set (lse_shifted_args exact \<sigma> P v). a \<le> 0"
proof -
  have "length (lse_u exact \<sigma> P v) = nbx P" using assms(2) by (simp add: shaped_def)
  then have "\<forall>a\<in>set (concat (col_args exact \<sigma> P (lse_u exact \<sigma> P v))). a \<le> 0"
    by (rule col_args_nonpos [OF assms(1,2)])
  then show ?thesis
    using row_args_nonpos [OF assms(1-3)]
    by (auto simp: lse_shifted_args_def Let_def)
qed

lemma lse_exp_args_nonpos:
  assumes "0 < \<sigma>" "shaped P" "length v = nby P" "positive (n_x P)" "\<forall>t\<in>set (n_x P). t \<le> 1"
  shows "\<forall>a\<in>set (lse_exp_args exact \<sigma> P v). a \<le> 0"
  using lse_shifted_args_nonpos [OF assms(1-3)] err_args_nonpos [OF assms]
  by (auto simp: lse_exp_args_def)

lemma length_lse_body: "shaped P \<Longrightarrow> length (lv (lse_body rnd \<sigma> P s)) = nby P"
  by (simp add: lse_body_def Let_def lse_neg_log_def col_args_def shaped_def)

lemma lse_trace_nonpos:
  "(\<And>v. length v = nby P \<Longrightarrow> \<forall>a\<in>set (args rnd \<sigma> P v). a \<le> 0) \<Longrightarrow> shaped P \<Longrightarrow>
   length (lv s) = nby P \<Longrightarrow> \<forall>a\<in>set (lse_trace args rnd \<sigma> P tol maxite s). a \<le> 0"
proof (induction args rnd \<sigma> P tol maxite s rule: lse_trace.induct)
  case (1 args rnd \<sigma> P tol maxite s)
  show ?case
  proof (cases "tol < lerror s \<and> lite s < maxite")
    case True
    have "\<forall>a\<in>set (lse_trace args rnd \<sigma> P tol maxite (lse_body rnd \<sigma> P s)). a \<le> 0"
      using "1.IH" True "1.prems"(1,2) length_lse_body [OF "1.prems"(2)] by blast
    moreover have "\<forall>a\<in>set (args rnd \<sigma> P (lv s)). a \<le> 0"
      using "1.prems"(1,3) by blast
    ultimately show ?thesis using True by (subst lse_trace.simps) auto
  next
    case False
    then show ?thesis by (subst lse_trace.simps) auto
  qed
qed

lemma lse_first_args: "lse_exp_args exact 1 heavy_market [0] = [0, 0, ln 2]"
  by (simp add: heavy_market_def lse_exp_args_def lse_shifted_args_def Let_def row_args_def
      col_args_def err_args_def lse_u_def vstar_x_def ustar_y_def lse_neg_log_def sum_exp_def
      fsum_def)

text \<open>
  Claim C8 as stated fails, already in exact arithmetic. The body passes three arrays to
  \<^verbatim>\<open>np.exp\<close>: the two inside the log-sum-exps, shifted by the row and column maxima,
  and \<^verbatim>\<open>(ustar_y-v_y) / \<sigma>\<close> in the residual, which is not shifted. On the heavy market
  (one type of mass two on each side, \<open>\<sigma> = 1\<close>) the first pass hands \<open>ln 2 > 0\<close> to the
  third.
\<close>

theorem lse_exp_args_counterexample:
  "shaped heavy_market \<and> positive (n_x heavy_market) \<and> positive (m_y heavy_market) \<and>
   \<not> list_all (\<lambda>a. a \<le> 0)
       (lse_trace lse_exp_args exact 1 heavy_market (1/100) 10 (log_init heavy_market (1/100)))"
proof -
  have a: "shaped heavy_market" "positive (n_x heavy_market)" "positive (m_y heavy_market)"
    by (simp_all add: shaped_def positive_def heavy_market_def)
  have i: "lv (log_init heavy_market (1/100)) = [0]" "lerror (log_init heavy_market (1/100)) = 1/100 + 1"
     "lite (log_init heavy_market (1/100)) = 0"
    by (simp_all add: log_init_def heavy_market_def)
  have "\<not> list_all (\<lambda>a. a \<le> 0)
          (lse_trace lse_exp_args exact 1 heavy_market (1/100) 10 (log_init heavy_market (1/100)))"
    by (subst lse_trace.simps) (simp add: i lse_first_args)
  then show ?thesis using a by simp
qed

text \<open>
  Claim C8, amended. In exact arithmetic, for \<open>\<sigma> > 0\<close> and every well-shaped problem: at
  every pass of the loop of \<^verbatim>\<open>logdomainIPFP_with_LSE_trick\<close>, the arguments of the two
  exponentials inside the log-sum-exps, which are shifted by the row and the column
  maximum, are nonpositive; and if the row marginals are positive and at most one (as
  when they sum to one), so is the argument of the exponential of the residual, hence
  every argument passed to \<^verbatim>\<open>np.exp\<close> in the loop. (The coupling formed after the loop
  is outside this statement.)
\<close>

theorem lse_trace_nonpositive:
  assumes "0 < \<sigma>" "shaped P"
  shows "list_all (\<lambda>a. a \<le> 0)
           (lse_trace lse_shifted_args exact \<sigma> P tol maxite (log_init P tol)) \<and>
         (positive (n_x P) \<and> list_all (\<lambda>t. t \<le> 1) (n_x P) \<longrightarrow>
          list_all (\<lambda>a. a \<le> 0)
            (lse_trace lse_exp_args exact \<sigma> P tol maxite (log_init P tol)))"
proof -
  have l: "length (lv (log_init P tol)) = nby P" by (simp add: log_init_def)
  have "\<forall>a\<in>set (lse_trace lse_shifted_args exact \<sigma> P tol maxite (log_init P tol)). a \<le> 0"
    using lse_shifted_args_nonpos [OF assms] by (intro lse_trace_nonpos [OF _ assms(2) l]) blast
  moreover have "\<forall>a\<in>set (lse_trace lse_exp_args exact \<sigma> P tol maxite (log_init P tol)). a \<le> 0"
    if "positive (n_x P)" "list_all (\<lambda>t. t \<le> 1) (n_x P)"
  proof -
    have "\<forall>t\<in>set (n_x P). t \<le> 1" using that(2) by (simp add: list_all_iff)
    then show ?thesis
      using lse_exp_args_nonpos [OF assms _ that(1)]
      by (intro lse_trace_nonpos [OF _ assms(2) l]) blast
  qed
  ultimately show ?thesis by (simp add: list_all_iff)
qed

text \<open>On the uniform market the loop runs, and its traces are not empty.\<close>

theorem lse_trace_nonpositive_witness:
  "shaped uniform_market \<and> positive (n_x uniform_market) \<and>
   list_all (\<lambda>t. t \<le> 1) (n_x uniform_market) \<and>
   lse_trace lse_shifted_args exact 1 uniform_market (1/100) 5 (log_init uniform_market (1/100)) \<noteq> [] \<and>
   list_all (\<lambda>a. a \<le> 0)
     (lse_trace lse_shifted_args exact 1 uniform_market (1/100) 5 (log_init uniform_market (1/100))) \<and>
   lse_trace lse_exp_args exact 1 uniform_market (1/100) 5 (log_init uniform_market (1/100)) \<noteq> [] \<and>
   list_all (\<lambda>a. a \<le> 0)
     (lse_trace lse_exp_args exact 1 uniform_market (1/100) 5 (log_init uniform_market (1/100)))"
proof -
  have l: "list_all (\<lambda>t. t \<le> 1) (n_x uniform_market)" by (simp add: uniform_simps)
  have sh: "lse_shifted_args exact 1 uniform_market (lv (log_init uniform_market (1/100))) \<noteq> []"
    by (simp add: lse_shifted_args_def Let_def row_args_def vstar_x_def log_init_def
        uniform_simps numeral_2_eq_2)
  then have ne1: "lse_trace lse_shifted_args exact 1 uniform_market (1/100) 5
      (log_init uniform_market (1/100)) \<noteq> []"
    by (subst lse_trace.simps) (simp add: log_init_def)
  have "lse_exp_args exact 1 uniform_market (lv (log_init uniform_market (1/100))) \<noteq> []"
    using sh by (simp add: lse_exp_args_def)
  then have ne2: "lse_trace lse_exp_args exact 1 uniform_market (1/100) 5
      (log_init uniform_market (1/100)) \<noteq> []"
    by (subst lse_trace.simps) (simp add: log_init_def)
  show ?thesis
    using ne1 ne2 l uniform_shaped(1,2)
      lse_trace_nonpositive [OF _ uniform_shaped(1), of 1 "1/100" 5]
    by simp
qed

section \<open>The ratio test and the pivot\<close>

lemma fold_min_props:
  "fold (\<lambda>q best. if snd q < snd best then q else best) ps (p::nat \<times> real) \<in> set (p # ps) \<and>
   (\<forall>q\<in>set (p # ps). snd (fold (\<lambda>q best. if snd q < snd best then q else best) ps p) \<le> snd q)"
proof (induction ps arbitrary: p)
  case Nil
  then show ?case by simp
next
  case (Cons a ps)
  show ?case
    using Cons.IH [of "if snd a < snd p then a else p"]
    by (auto split: if_splits intro: order_trans less_imp_le)
qed

lemma min_by_value_Inr:
  assumes "min_by_value d = Inr r"
  shows "r \<in> set d \<and> (\<forall>q\<in>set d. snd r \<le> snd q)"
  using assms fold_min_props
  by (cases d) (auto simp: min_by_value_def simp del: fold_simps)

lemma min_by_value_Inl: "min_by_value d = Inl e \<longleftrightarrow> d = [] \<and> e = ValueError"
  by (cases d) (auto simp: min_by_value_def)

lemma thedic_mem:
  "(b, r) \<in> set (thedic rnd n x z) \<longleftrightarrow> b < n \<and> 0 < z ! b \<and> r = rnd (x ! b / z ! b)"
  by (auto simp: thedic_def)

lemma thedic_empty: "thedic rnd n x z = [] \<longleftrightarrow> (\<forall>b<n. \<not> 0 < z ! b)"
  by (auto simp: thedic_def filter_empty_conv)

text \<open>What a successful ratio test says about its result.\<close>

lemma ratio_test:
  assumes "min_by_value (thedic exact n x z) = Inr (j, eps)"
  shows "j < n" "0 < z ! j" "eps = x ! j / z ! j" "\<forall>b<n. 0 < z ! b \<longrightarrow> eps \<le> x ! b / z ! b"
proof -
  note r = min_by_value_Inr [OF assms]
  from r show "j < n" "0 < z ! j" "eps = x ! j / z ! j" by (simp_all add: thedic_mem)
  show "\<forall>b<n. 0 < z ! b \<longrightarrow> eps \<le> x ! b / z ! b"
  proof (intro allI impI)
    fix b assume "b < n" "0 < z ! b"
    then have "(b, x ! b / z ! b) \<in> set (thedic exact n x z)" by (simp add: thedic_mem)
    with r show "eps \<le> x ! b / z ! b" by fastforce
  qed
qed

lemma pivot_nonneg:
  assumes rt: "min_by_value (thedic exact n x z) = Inr (j, eps)"
    and len: "length x = n" "length z = n" and x: "\<forall>t\<in>set x. 0 \<le> t"
  shows "0 \<le> eps" and "\<forall>t\<in>set ((map2 (\<lambda>x z. x - eps * z) x z)[j := eps]). 0 \<le> t"
proof -
  note r = ratio_test [OF rt]
  have xn: "\<forall>b<n. 0 \<le> x ! b" using x len by (simp add: all_set_conv_all_nth)
  show eps: "0 \<le> eps" using r(1-3) xn by simp
  have "0 \<le> (map2 (\<lambda>x z. x - eps * z) x z)[j := eps] ! b" if b: "b < n" for b
  proof (cases "b = j")
    case True
    then show ?thesis using eps len b by simp
  next
    case False
    have "eps * z ! b \<le> x ! b"
    proof (cases "0 < z ! b")
      case True
      then have "eps \<le> x ! b / z ! b" using r(4) b by simp
      then show ?thesis using True by (simp add: pos_le_divide_eq)
    next
      case False
      then have "eps * z ! b \<le> 0" using eps by (simp add: mult_le_0_iff)
      then show ?thesis using xn b by (meson order_trans)
    qed
    then show ?thesis using False len b by simp
  qed
  then show "\<forall>t\<in>set ((map2 (\<lambda>x z. x - eps * z) x z)[j := eps]). 0 \<le> t"
    using len by (simp add: all_set_conv_all_nth)
qed

lemma dot_update:
  assumes "length r = length y" "k < length r"
  shows "dot (r[k := a]) (y[k := e]) = dot r y - r ! k * y ! k + a * e"
proof -
  let ?n = "length r"
  have kin: "k \<in> {..<?n}" using assms by simp
  have "dot (r[k := a]) (y[k := e]) = (\<Sum>i<?n. r[k := a] ! i * y[k := e] ! i)"
    using assms by (simp add: dot_sum)
  also have "\<dots> = a * e + (\<Sum>i\<in>{..<?n} - {k}. r[k := a] ! i * y[k := e] ! i)"
    using assms by (subst sum.remove [OF _ kin]) simp_all
  also have "(\<Sum>i\<in>{..<?n} - {k}. r[k := a] ! i * y[k := e] ! i)
      = (\<Sum>i\<in>{..<?n} - {k}. r ! i * y ! i)"
    by (intro sum.cong) auto
  also have "\<dots> = (\<Sum>i<?n. r ! i * y ! i) - r ! k * y ! k"
    using sum.remove [OF _ kin, of "\<lambda>i. r ! i * y ! i"] by simp
  finally show ?thesis using assms by (simp add: dot_sum)
qed

lemma dot_axpy:
  assumes "length r = n" "length x = n" "length z = n"
  shows "dot r (map2 (\<lambda>x z. x - eps * z) x z) = dot r x - eps * dot r z"
  using assms
  by (simp add: dot_sum sum_subtractf sum_distrib_left algebra_simps)


lemma pivot_solution:
  assumes rt: "min_by_value (thedic exact n x z) = Inr (j, eps)"
    and B: "length B = m" "\<forall>row\<in>set B. length row = n"
    and len: "length x = n" "length z = n" "length c = m"
    and Bz: "mat_vec B z = c"
  shows "mat_vec (set_column B j c) ((map2 (\<lambda>x z. x - eps * z) x z)[j := eps]) = mat_vec B x"
proof (rule nth_equalityI)
  note r = ratio_test [OF rt]
  let ?x' = "map2 (\<lambda>x z. x - eps * z) x z"
  show "length (mat_vec (set_column B j c) (?x'[j := eps])) = length (mat_vec B x)"
    using B len by (simp add: set_column_def)
  fix i assume "i < length (mat_vec (set_column B j c) (?x'[j := eps]))"
  then have i: "i < m" using B len by (simp add: set_column_def)
  have row: "length (B ! i) = n" using B i by simp
  have zero: "?x' ! j = 0" using r(1-3) len by simp
  have "mat_vec (set_column B j c) (?x'[j := eps]) ! i = dot ((B ! i)[j := c ! i]) (?x'[j := eps])"
    using i B len by (simp add: set_column_def)
  also have "\<dots> = dot (B ! i) ?x' - B ! i ! j * ?x' ! j + c ! i * eps"
    using row len r(1) by (intro dot_update) simp_all
  also have "dot (B ! i) ?x' = dot (B ! i) x - eps * dot (B ! i) z"
    using row len(1,2) by (rule dot_axpy)
  also have "dot (B ! i) z = c ! i"
    using i B(1) nth_mat_vec [of i B z] by (simp add: Bz)
  finally show "mat_vec (set_column B j c) (?x'[j := eps]) ! i = mat_vec B x ! i"
    using zero i B by simp
qed

text \<open>
  Claim C7, amended. In exact arithmetic: let the Pivoter hold a square basis \<open>B\<close> and a
  solution with \<open>B x\<^sub>B = d\<close> and \<open>x\<^sub>B \<ge> 0\<close>, let the solver's answer \<open>z\<close> on the entering
  column satisfy \<open>B z = Nent\<close> (as it does for an invertible \<open>B\<close>), and let the array \<open>B\<close>
  store the entering column unchanged (it is an array of floats, or the column is
  integral). Whenever \<^verbatim>\<open>determine_departing(Nent)\<close> returns \<open>(bdep, \<epsilon>)\<close>,
  \<^verbatim>\<open>update(bdep, \<epsilon>, Nent)\<close> succeeds, and the new state again satisfies \<open>B x\<^sub>B = d\<close> and
  \<open>x\<^sub>B \<ge> 0\<close>.
\<close>

theorem update_keeps_feasible:
  assumes shape: "length (B_i_b P) = nbb P" "\<forall>row\<in>set (B_i_b P). length row = nbb P"
      "length (x_b P) = nbb P" "length Nent_i = nbb P"
    and solver: "\<forall>z. solve (B_i_b P) Nent_i = Inr z \<longrightarrow>
                   length z = nbb P \<and> mat_vec (B_i_b P) z = Nent_i"
    and stored: "map (cast (B_dtype P)) Nent_i = Nent_i"
    and feas: "mat_vec (B_i_b P) (x_b P) = d" "\<forall>t\<in>set (x_b P). 0 \<le> t"
    and dep: "determine_departing exact solve P Nent_i = Inr (bdep, epsilon)"
  shows "\<exists>P'. update exact solve P bdep epsilon Nent_i = Inr P' \<and>
           mat_vec (B_i_b P') (x_b P') = d \<and> (\<forall>t\<in>set (x_b P'). 0 \<le> t)"
proof -
  obtain z where z: "solve (B_i_b P) Nent_i = Inr z"
    and rt: "min_by_value (thedic exact (nbb P) (x_b P) z) = Inr (bdep, epsilon)"
    using dep by (auto simp: determine_departing_def split: sum.splits if_splits)
  have zl: "length z = nbb P" and Bz: "mat_vec (B_i_b P) z = Nent_i"
    using solver z by simp_all
  note r = ratio_test [OF rt]
  let ?P' = "P\<lparr> x_b := (map2 (\<lambda>x z. x - epsilon * z) (x_b P) z)[bdep := epsilon],
                 B_i_b := set_column (B_i_b P) bdep Nent_i \<rparr>"
  have "update exact solve P bdep epsilon Nent_i = Inr ?P'"
    using z r(1) shape stored by (auto simp: update_def list_ex_iff)
  moreover have "mat_vec (B_i_b ?P') (x_b ?P') = d"
    using pivot_solution [OF rt shape(1,2,3) zl shape(4) Bz] feas(1) by simp
  moreover have "\<forall>t\<in>set (x_b ?P'). 0 \<le> t"
    using pivot_nonneg(2) [OF rt shape(3) zl feas(2)] by simp
  ultimately show ?thesis by blast
qed

text \<open>
  Claim C9, amended. When the resolved direction \<open>z\<close> has no strictly positive entry,
  \<^verbatim>\<open>determine_departing\<close> returns no departing row: it raises Python's \<^verbatim>\<open>ValueError\<close>,
  from \<^verbatim>\<open>min\<close> over the empty dictionary. This holds in every arithmetic.
\<close>

theorem determine_departing_no_positive:
  assumes "solve (B_i_b P) Nent_i = Inr z" "list_all (\<lambda>b. z ! b \<le> 0) [0..<nbb P]"
  shows "determine_departing rnd solve P Nent_i = Inl ValueError"
proof -
  have np: "\<forall>b<nbb P. z ! b \<le> 0" using assms(2) by (simp add: list_all_iff)
  have "thedic rnd (nbb P) (x_b P) z = []"
    using np by (simp add: thedic_empty not_less)
  moreover have "\<not> list_ex (\<lambda>b. 0 < z ! b \<and> length (x_b P) \<le> b) [0..<nbb P]"
    using np by (auto simp: list_ex_iff not_less)
  ultimately show ?thesis
    using assms(1) by (simp add: determine_departing_def min_by_value_def)
qed

subsection \<open>Two pivots, run by hand\<close>

lemma unit_solve: "diag_solve [[1]] [-1] = Inr [-1]"
  by (simp add: diag_solve_def diag_def)

lemma unit_departing: "determine_departing rnd diag_solve unit_pivoter [-1] = Inl ValueError"
  by (simp add: determine_departing_def unit_solve unit_pivoter_def thedic_def min_by_value_def)


text \<open>
  Claim C9 as stated fails. With basis \<open>[[1]]\<close> and entering column \<open>[-1]\<close> the direction
  is \<open>[-1]\<close>, with no positive entry, and the error raised is \<^verbatim>\<open>ValueError\<close>: the code
  has no \<^verbatim>\<open>UnboundedError\<close>.
\<close>

theorem determine_departing_counterexample:
  "determine_departing float64 diag_solve unit_pivoter [-1] = Inl ValueError \<and>
   determine_departing float64 diag_solve unit_pivoter [-1] \<noteq> Inl UnboundedError"
  by (simp add: unit_departing)

text \<open>The same input meets the hypotheses of the amended claim.\<close>

theorem determine_departing_no_positive_witness:
  "diag_solve (B_i_b unit_pivoter) [-1] = Inr [-1] \<and>
   list_all (\<lambda>b. [-1::real] ! b \<le> 0) [0..<nbb unit_pivoter] \<and>
   determine_departing float64 diag_solve unit_pivoter [-1] = Inl ValueError"
  using determine_departing_no_positive [of diag_solve unit_pivoter "[-1]" "[-1]" float64]
  by (simp add: unit_solve unit_pivoter_def)

lemma two_solve: "diag_solve [[2, 0], [0, 1]] [1, 1] = Inr [1/2, 1]"
  by (simp add: diag_solve_def diag_def)

lemma two_pivoter_simps: "nbb two_pivoter = 2" "B_i_b two_pivoter = [[2, 0], [0, 1]]" "x_b two_pivoter = [1, 1]"
  by (simp_all add: two_pivoter_def)

lemma two_departing: "determine_departing exact diag_solve two_pivoter [1, 1] = Inr (1, 1)"
  by (simp add: determine_departing_def two_solve two_pivoter_simps thedic_def min_by_value_def numeral_2_eq_2)

text \<open>
  A pivot on the basis \<open>diag(2, 1)\<close> with \<open>x\<^sub>B = (1, 1)\<close>, \<open>d = (2, 1)\<close> and entering
  column \<open>(1, 1)\<close>: the ratio test returns row \<open>1\<close> and step \<open>1\<close>.
\<close>

theorem update_keeps_feasible_witness:
  "(\<exists>P'. update exact diag_solve two_pivoter 1 1 [1, 1] = Inr P' \<and>
           mat_vec (B_i_b P') (x_b P') = [2, 1] \<and> (\<forall>t\<in>set (x_b P'). 0 \<le> t))"
proof -
  have a: "length (B_i_b two_pivoter) = nbb two_pivoter"
      "\<forall>row\<in>set (B_i_b two_pivoter). length row = nbb two_pivoter"
      "length (x_b two_pivoter) = nbb two_pivoter" "length [1, 1 :: real] = nbb two_pivoter"
    by (simp_all add: two_pivoter_simps)
  have b: "\<forall>z. diag_solve (B_i_b two_pivoter) [1, 1] = Inr z \<longrightarrow>
                   length z = nbb two_pivoter \<and> mat_vec (B_i_b two_pivoter) z = [1, 1]"
    by (auto simp: two_pivoter_simps two_solve mat_vec_def dot_def)
  have c: "mat_vec (B_i_b two_pivoter) (x_b two_pivoter) = [2, 1]" "\<forall>t\<in>set (x_b two_pivoter). 0 \<le> t"
    by (simp_all add: two_pivoter_simps mat_vec_def dot_def)
  have st: "map (cast (B_dtype two_pivoter)) [1, 1] = [1, 1]"
    by (simp add: two_pivoter_def)
  show ?thesis
    by (rule update_keeps_feasible [OF a b st c two_departing])
qed

subsection \<open>Two pivots that lose feasibility\<close>

lemma float64_17_10: "float64 (17/10) = 7656119366529843 / 4503599627370496"
  using float64_scaled [of "17/10" 52] by (simp add: rne_def Let_def)

lemma float64_1_10: "float64 (1/10) = 3602879701896397 / 36028797018963968"
  using float64_scaled [of "1/10" 56] by (simp add: rne_def Let_def)

lemma tie_ratio: "float64 (61248954932238744 / 3602879701896397) = 17"
  using float64_scaled [of "61248954932238744 / 3602879701896397" 48]
  by (simp add: rne_def Let_def)

lemma tie_product:
  "float64 (61248954932238749 / 36028797018963968) = 1914029841632461 / 1125899906842624"
  using float64_scaled [of "61248954932238749 / 36028797018963968" 52]
  by (simp add: rne_def Let_def)

lemma tie_difference: "float64 (- (1 / 4503599627370496)) = - (1 / 4503599627370496)"
  using float64_scaled [of "- (1 / 4503599627370496)" 104]
  by (simp add: rne_def Let_def)

lemma eye_solve: "diag_solve [[1, 0], [0, 1]] [a, b] = Inr [a, b]"
  by (simp add: diag_solve_def diag_def)

lemma upt_2: "[0..<2] = [0, Suc 0]"
  by (simp add: numeral_2_eq_2)

lemma tie_simps:
  "nbb tie_pivoter = 2" "B_i_b tie_pivoter = [[1, 0], [0, 1]]" "B_dtype tie_pivoter = Float_array"
  "x_b tie_pivoter = [7656119366529843 / 4503599627370496, 7656119366529843 / 4503599627370496]"
  by (simp_all add: tie_pivoter_def float64_17_10)

lemma tie_departing:
  "determine_departing float64 diag_solve tie_pivoter [float64 (1/10), float64 (1/10)] = Inr (0, 17)"
  by (simp add: determine_departing_def tie_simps float64_1_10 eye_solve thedic_def upt_2
      min_by_value_def tie_ratio)

lemma tie_update:
  "update float64 diag_solve tie_pivoter 0 17 [float64 (1/10), float64 (1/10)]
     = Inr \<lparr> nbb = 2,
             B_i_b = [[3602879701896397 / 36028797018963968, 0],
                      [3602879701896397 / 36028797018963968, 1]],
             B_dtype = Float_array,
             x_b = [17, - (1 / 4503599627370496)] \<rparr>"
  by (simp add: update_def tie_pivoter_def float64_17_10 float64_1_10 eye_solve set_column_def
      tie_product tie_difference)

lemma int_simps:
  "nbb int_pivoter = 2" "B_i_b int_pivoter = [[1, 0], [0, 1]]" "B_dtype int_pivoter = Int_array"
  "x_b int_pivoter = [1, 1]"
  by (simp_all add: int_pivoter_def)

lemma int_departing:
  "determine_departing exact diag_solve int_pivoter [1/2, 1/4] = Inr (0, 2)"
  by (simp add: determine_departing_def int_simps eye_solve thedic_def upt_2 min_by_value_def)

lemma int_update:
  "update exact diag_solve int_pivoter 0 2 [1/2, 1/4]
     = Inr \<lparr> nbb = 2, B_i_b = [[0, 0], [0, 1]], B_dtype = Int_array, x_b = [2, 1/2] \<rparr>"
  by (simp add: update_def int_pivoter_def eye_solve set_column_def cast_def)

text \<open>
  Claim C7 as stated fails, in two ways.

  In binary64: take the identity basis with \<open>x\<^sub>B = d = (1.7, 1.7)\<close> and the entering column
  \<open>(0.1, 0.1)\<close>. The basis is invertible, \<open>B x\<^sub>B = d\<close> and \<open>x\<^sub>B \<ge> 0\<close> hold exactly, and the
  solver's answer is exact. The two ratios tie, \<^verbatim>\<open>determine_departing\<close> returns
  \<open>(0, 17.0)\<close>, and \<^verbatim>\<open>update\<close> leaves \<open>x\<^sub>B[1] = 1.7 - 17.0 * 0.1 = -2\<^sup>-\<^sup>5\<^sup>2 < 0\<close>, with
  \<open>B x\<^sub>B \<noteq> d\<close>.

  In exact arithmetic, on a basis stored as integers: with \<open>x\<^sub>B = d = (1, 1)\<close> and the
  entering column \<open>(1/2, 1/4)\<close> the ratio test returns \<open>(0, 2)\<close>, the column is stored as
  \<open>(0, 0)\<close>, and \<open>B x\<^sub>B = (0, 1/2) \<noteq> d\<close>.
\<close>

theorem update_counterexample:
  "mat_vec (B_i_b tie_pivoter) (x_b tie_pivoter) = x_b tie_pivoter \<and>
   list_all (\<lambda>t. 0 \<le> t) (x_b tie_pivoter) \<and>
   diag_solve (B_i_b tie_pivoter) [float64 (1/10), float64 (1/10)]
     = Inr [float64 (1/10), float64 (1/10)] \<and>
   mat_vec (B_i_b tie_pivoter) [float64 (1/10), float64 (1/10)]
     = [float64 (1/10), float64 (1/10)] \<and>
   determine_departing float64 diag_solve tie_pivoter [float64 (1/10), float64 (1/10)]
     = Inr (0, 17) \<and>
   (\<exists>P'. update float64 diag_solve tie_pivoter 0 17 [float64 (1/10), float64 (1/10)] = Inr P' \<and>
          x_b P' = [17, - (1 / 2 ^ 52)] \<and> \<not> list_all (\<lambda>t. 0 \<le> t) (x_b P') \<and>
          mat_vec (B_i_b P') (x_b P') \<noteq> x_b tie_pivoter) \<and>
   mat_vec (B_i_b int_pivoter) (x_b int_pivoter) = [1, 1] \<and>
   list_all (\<lambda>t. 0 \<le> t) (x_b int_pivoter) \<and>
   diag_solve (B_i_b int_pivoter) [1/2, 1/4] = Inr [1/2, 1/4] \<and>
   determine_departing exact diag_solve int_pivoter [1/2, 1/4] = Inr (0, 2) \<and>
   (\<exists>P'. update exact diag_solve int_pivoter 0 2 [1/2, 1/4] = Inr P' \<and>
          mat_vec (B_i_b P') (x_b P') = [0, 1/2])"
proof -
  have a: "mat_vec (B_i_b tie_pivoter) (x_b tie_pivoter) = x_b tie_pivoter"
    "list_all (\<lambda>t. 0 \<le> t) (x_b tie_pivoter)"
    "mat_vec (B_i_b tie_pivoter) [float64 (1/10), float64 (1/10)]
       = [float64 (1/10), float64 (1/10)]"
    by (simp_all add: tie_simps mat_vec_def dot_def)
  have b: "diag_solve (B_i_b tie_pivoter) [float64 (1/10), float64 (1/10)]
      = Inr [float64 (1/10), float64 (1/10)]"
    by (simp add: tie_simps eye_solve)
  have c: "\<exists>P'. update float64 diag_solve tie_pivoter 0 17 [float64 (1/10), float64 (1/10)] = Inr P' \<and>
          x_b P' = [17, - (1 / 2 ^ 52)] \<and> \<not> list_all (\<lambda>t. 0 \<le> t) (x_b P') \<and>
          mat_vec (B_i_b P') (x_b P') \<noteq> x_b tie_pivoter"
    by (simp add: tie_update tie_simps mat_vec_def dot_def)
  have d: "mat_vec (B_i_b int_pivoter) (x_b int_pivoter) = [1, 1]"
    "list_all (\<lambda>t. 0 \<le> t) (x_b int_pivoter)"
    "diag_solve (B_i_b int_pivoter) [1/2, 1/4] = Inr [1/2, 1/4]"
    by (simp_all add: int_simps mat_vec_def dot_def eye_solve)
  have e: "\<exists>P'. update exact diag_solve int_pivoter 0 2 [1/2, 1/4] = Inr P' \<and>
          mat_vec (B_i_b P') (x_b P') = [0, 1/2]"
    by (simp add: int_update mat_vec_def dot_def)
  show ?thesis
    using a b c d e tie_departing int_departing by simp
qed

section \<open>The knapsack oracle on a negative first value\<close>

text \<open>
  Claim C5, at weights \<open>(2, 3)\<close>, values \<open>(-1, 1)\<close> and capacity \<open>5\<close>. Row \<open>0\<close> of
  \<^verbatim>\<open>F\<close> is \<^verbatim>\<open>(v // w_i[0]) * max(k_i[0],0)\<close>, which prices item \<open>0\<close> at zero when its
  value is negative, while row \<open>0\<close> of \<^verbatim>\<open>A\<close> is \<^verbatim>\<open>v // w_i[0]\<close>, which still takes
  as many of it as fit. The backward pass therefore returns the pattern \<open>(1, 1)\<close>, of
  value \<open>0\<close>, although the feasible pattern \<open>(0, 1)\<close> has value \<open>1\<close>.
\<close>

theorem knapsack_negative_first_value:
  "knapsack [2, 3] [-1, 1] 5 = Inr [1, 1] \<and>
   dot [-1, 1] (map real [1, 1]) < dot [-1, 1] (map real [0, 1]) \<and>
   sum_list (map2 (*) [0, 1] [2, 3 :: nat]) \<le> 5"
proof -
  have "knapsack [2, 3] [-1, 1] 5 = Inr [1, 1]" by code_simp
  then show ?thesis by (simp add: dot_def)
qed

section \<open>Monotonicity of column generation\<close>

lemma length_diag [simp]: "length (diag d) = length d"
  by (simp add: diag_def)

lemma nth_diag: "i < length d \<Longrightarrow> diag d ! i = (replicate (length d) 0)[i := d ! i]"
  by (simp add: diag_def)

lemma diag_rows: "\<forall>row\<in>set (diag d). length row = length d"
  by (auto simp: diag_def)

lemma dot_unit:
  assumes "length x = n" "i < n"
  shows "dot ((replicate n 0)[i := a]) x = a * x ! i"
proof -
  have "dot ((replicate n 0)[i := a]) (x[i := x ! i]) = dot (replicate n 0) x - replicate n 0 ! i * x ! i + a * x ! i"
    using assms by (intro dot_update) simp_all
  moreover have "dot (replicate n 0) x = 0"
    using assms by (simp add: dot_sum)
  ultimately show ?thesis using assms by simp
qed

lemma mat_vec_diag:
  assumes "length x = length d" "i < length d"
  shows "mat_vec (diag d) x ! i = d ! i * x ! i"
  using assms by (simp add: nth_diag dot_unit)

lemma cg_init_inv:
  assumes sol: "solves solve" and w: "\<forall>wi\<in>set w. 0 < wi \<and> wi \<le> W"
    and q: "length q = length w" "\<forall>t\<in>set q. 0 \<le> t"
    and init: "cg_init solve w q W = Inr s"
  shows "cg_inv (length w) s"
proof -
  let ?d = "map (\<lambda>wi. real (W div wi)) w"
  obtain x where x: "solve (diag ?d) q = Inr x" and s: "s = \<lparr> AB_i_j = diag ?d, xB_j = x \<rparr>"
    using init by (auto simp: cg_init_def Let_def split: sum.splits)
  have lx: "length x = length w" and eq: "mat_vec (diag ?d) x = q"
    using sol x q(1) by (auto simp: solves_def)
  have "0 \<le> x ! i" if i: "i < length w" for i
  proof -
    have "0 < w ! i" "w ! i \<le> W" using w i by simp_all
    then have "1 \<le> W div w ! i" by (simp add: Suc_le_eq div_greater_zero_iff)
    then have d: "0 < ?d ! i" using i by simp
    have "?d ! i * x ! i = q ! i"
      using mat_vec_diag [of x ?d i] lx i eq by simp
    moreover have "0 \<le> q ! i" using q i by simp
    ultimately show ?thesis using d by (metis zero_le_mult_iff not_less order.asym)
  qed
  then have "\<forall>t\<in>set x. 0 \<le> t" using lx by (simp add: all_set_conv_all_nth)
  then show ?thesis using s lx diag_rows [of ?d] by (simp add: cg_inv_def)
qed

lemma length_backtrack [simp]: "length (backtrack A w v i) = i"
  by (induction A w v i rule: backtrack.induct) simp_all

lemma knapsack_length: "knapsack w k W = Inr a \<Longrightarrow> length a = length k"
  by (auto simp: knapsack_def Let_def split: if_splits)


lemma sum_list_dot_ones: "length y = n \<Longrightarrow> sum_list y = dot (replicate n 1) y"
  by (simp add: dot_sum sum_list_lessThan)

lemma transpose_dot:
  assumes "length B = n" "\<forall>row\<in>set B. length row = n" "length k = n" "length z = n"
  shows "dot (mat_vec (transpose_mat n B) k) z = dot k (mat_vec B z)"
proof -
  have "dot (mat_vec (transpose_mat n B) k) z = (\<Sum>j<n. (\<Sum>i<n. B ! i ! j * k ! i) * z ! j)"
    using assms by (simp add: dot_sum transpose_mat_def)
  also have "\<dots> = (\<Sum>j<n. \<Sum>i<n. k ! i * (B ! i ! j * z ! j))"
    by (intro sum.cong refl) (simp add: sum_distrib_right sum_distrib_left mult_ac)
  also have "\<dots> = (\<Sum>i<n. \<Sum>j<n. k ! i * (B ! i ! j * z ! j))"
    by (rule sum.swap)
  also have "\<dots> = (\<Sum>i<n. k ! i * (\<Sum>j<n. B ! i ! j * z ! j))"
    by (simp add: sum_distrib_left)
  also have "\<dots> = dot k (mat_vec B z)"
    using assms by (simp add: dot_sum)
  finally show ?thesis .
qed

lemma pivot_sum:
  assumes rt: "min_by_value (thedic exact n x z) = Inr (j, eps)"
    and len: "length x = n" "length z = n"
  shows "sum_list ((map2 (\<lambda>x z. x - eps * z) x z)[j := eps])
         = sum_list x - eps * (sum_list z - 1)"
proof -
  note r = ratio_test [OF rt]
  let ?y = "map2 (\<lambda>x z. x - eps * z) x z"
  let ?o = "replicate n (1::real)"
  have ly: "length ?y = n" using len by simp
  have zero: "?y ! j = 0" using r(1-3) len by simp
  have "sum_list (?y[j := eps]) = dot ?o (?y[j := eps])"
    using ly by (intro sum_list_dot_ones) simp
  also have "?o = ?o[j := 1]" using r(1) by (simp add: list_eq_iff_nth_eq nth_list_update)
  also have "dot (?o[j := 1]) (?y[j := eps]) = dot ?o ?y - ?o ! j * ?y ! j + 1 * eps"
    using ly r(1) by (intro dot_update) simp_all
  also have "dot ?o ?y = dot ?o x - eps * dot ?o z"
    using len by (intro dot_axpy [where n = n]) simp_all
  finally show ?thesis
    using zero len by (simp add: sum_list_dot_ones [symmetric] algebra_simps)
qed

lemma cg_step_props:
  assumes sol: "solves solve" and inv: "cg_inv (length w) s"
    and step: "cg_step exact solve w W s = Inr (Some s')"
  shows "cg_inv (length w) s'" and "sum_list (xB_j s') \<le> sum_list (xB_j s)"
proof -
  let ?n = "length w"
  obtain k a z j eps where
    k: "solve (transpose_mat ?n (AB_i_j s)) (replicate ?n 1) = Inr k"
    and a: "knapsack w k W = Inr a"
    and better: "1 < dot k (map real a)"
    and z: "solve (AB_i_j s) (map real a) = Inr z"
    and rt: "min_by_value (thedic exact ?n (xB_j s) z) = Inr (j, eps)"
    and s': "s' = \<lparr> AB_i_j = set_column (AB_i_j s) j (map real a),
                    xB_j = (map2 (\<lambda>x z. x - eps * z) (xB_j s) z)[j := eps] \<rparr>"
    using step
    by (auto simp: cg_step_def Let_def not_le split: sum.splits if_splits prod.splits)
  have B: "length (AB_i_j s) = ?n" "\<forall>row\<in>set (AB_i_j s). length row = ?n"
    and x: "length (xB_j s) = ?n" "\<forall>t\<in>set (xB_j s). 0 \<le> t"
    using inv by (simp_all add: cg_inv_def)
  have lk: "length k = ?n" and tk: "mat_vec (transpose_mat ?n (AB_i_j s)) k = replicate ?n 1"
    using sol k by (auto simp: solves_def)
  have la: "length a = ?n" using knapsack_length [OF a] lk by simp
  have lz: "length z = ?n" and Bz: "mat_vec (AB_i_j s) z = map real a"
    using sol z la by (auto simp: solves_def)
  note r = ratio_test [OF rt]
  note nn = pivot_nonneg [OF rt x(1) lz x(2)]
  show "cg_inv ?n s'"
    using nn(2) B x lz la r(1) unfolding s'
    by (auto simp: cg_inv_def set_column_def set_zip)
  have "sum_list z = dot (replicate ?n 1) z" using lz by (rule sum_list_dot_ones)
  also have "\<dots> = dot k (mat_vec (AB_i_j s) z)"
    using transpose_dot [OF B lk lz] tk by simp
  finally have "1 < sum_list z" using better Bz by simp
  then have "0 \<le> eps * (sum_list z - 1)" using nn(1) by simp
  then show "sum_list (xB_j s') \<le> sum_list (xB_j s)"
    unfolding s' using pivot_sum [OF rt x(1) lz] by simp
qed

lemma cg_reach_inv:
  assumes "solves solve" "\<forall>wi\<in>set w. 0 < wi \<and> wi \<le> W" "length q = length w" "\<forall>t\<in>set q. 0 \<le> t"
  shows "cg_reach exact solve w q W s \<Longrightarrow> cg_inv (length w) s"
proof (induction rule: cg_reach.induct)
  case (cg_start s)
  then show ?case using cg_init_inv assms by blast
next
  case (cg_pivot s s')
  then show ?case using cg_step_props(1) assms(1) by blast
qed

text \<open>
  Claim C4, amended. In exact arithmetic, with a linear solver whose answers solve their
  systems: in the cutting-stock column-generation loop, started from nonnegative demands
  \<open>q\<close> and item weights \<open>0 < w\<^sub>i \<le> W\<close>, at every state the loop reaches, a pass that
  accepts the knapsack pattern (\<open>k \<cdot> a > 1\<close>) and whose ratio test returns \<open>(jexit, \<epsilon>)\<close>
  leaves a basic solution with \<open>\<Sum> x\<^sub>B' \<le> \<Sum> x\<^sub>B\<close>.
\<close>

theorem column_generation_monotone:
  assumes "solves solve" "\<forall>wi\<in>set w. 0 < wi \<and> wi \<le> W" "length q = length w" "\<forall>t\<in>set q. 0 \<le> t"
    and "cg_reach exact solve w q W s" and "cg_step exact solve w W s = Inr (Some s')"
  shows "sum_list (xB_j s') \<le> sum_list (xB_j s)"
  using cg_step_props(2) [OF assms(1) cg_reach_inv [OF assms(1-5)] assms(6)] .

subsection \<open>A first pass, run by hand\<close>

lemma solves_diag_solve: "solves diag_solve"
  unfolding solves_def
proof (intro allI impI)
  fix M y z assume h: "diag_solve M y = Inr z"
  let ?d = "map (\<lambda>i. M ! i ! i) [0..<length M]"
  have M: "M = diag ?d" and ly: "length y = length M" and nz: "list_all (\<lambda>t. t \<noteq> 0) ?d"
    and z: "z = map2 (/) y ?d"
    using h by (auto simp: diag_solve_def Let_def split: if_splits)
  have lz: "length z = length y" using z ly by simp
  have "mat_vec (diag ?d) z = y"
  proof (rule nth_equalityI)
    show "length (mat_vec (diag ?d) z) = length y" using ly by simp
    fix i assume "i < length (mat_vec (diag ?d) z)"
    then have i: "i < length M" by simp
    have "?d ! i \<noteq> 0" using nz i by (simp add: list_all_length)
    moreover have "mat_vec (diag ?d) z ! i = ?d ! i * z ! i"
      using i lz ly by (intro mat_vec_diag) simp_all
    moreover have "z ! i = y ! i / ?d ! i" using z i ly by simp
    ultimately show "mat_vec (diag ?d) z ! i = y ! i" by simp
  qed
  then show "length z = length y \<and> mat_vec M z = y" using M lz by simp
qed

lemma small_init: "cg_init diag_solve [2, 3] [2, 1] 5 = Inr \<lparr> AB_i_j = [[2, 0], [0, 1]], xB_j = [1, 1] \<rparr>"
  by (simp add: cg_init_def diag_solve_def diag_def Let_def)

lemma small_knapsack: "knapsack [2, 3] [1/2, 1] 5 = Inr [1, 1]"
  by code_simp


lemma small_step: "cg_step exact diag_solve [2, 3] 5 \<lparr> AB_i_j = [[2, 0], [0, 1]], xB_j = [1, 1] \<rparr>
   = Inr (Some \<lparr> AB_i_j = [[2, 1], [0, 1]], xB_j = [1/2, 1] \<rparr>)"
proof -
  have a: "diag_solve (transpose_mat 2 [[2, 0], [0, 1]]) (replicate 2 1) = Inr [1/2, 1]"
    by (simp add: transpose_mat_def column_def diag_solve_def diag_def numeral_2_eq_2)
  have b: "diag_solve [[2, 0], [0, 1]] [1, 1] = Inr [1/2, 1]"
    by (simp add: diag_solve_def diag_def)
  have c: "min_by_value (thedic exact 2 [1, 1] [1/2, 1]) = Inr (1, 1)"
    by (simp add: thedic_def min_by_value_def numeral_2_eq_2)
  show ?thesis
    by (simp add: cg_step_def Let_def a b c small_knapsack dot_def set_column_def numeral_2_eq_2 [symmetric])
qed

text \<open>
  Widths \<open>2\<close> and \<open>3\<close> cut from rolls of \<open>5\<close>, demands \<open>2\<close> and \<open>1\<close>: the first pass
  brings in the pattern \<open>(1, 1)\<close> and the objective falls from \<open>2\<close> to \<open>3/2\<close>.
\<close>

theorem column_generation_monotone_witness:
  "cg_reach exact diag_solve [2, 3] [2, 1] 5 \<lparr> AB_i_j = [[2, 0], [0, 1]], xB_j = [1, 1] \<rparr> \<and>
   cg_step exact diag_solve [2, 3] 5 \<lparr> AB_i_j = [[2, 0], [0, 1]], xB_j = [1, 1] \<rparr>
     = Inr (Some \<lparr> AB_i_j = [[2, 1], [0, 1]], xB_j = [1/2, 1] \<rparr>) \<and>
   sum_list (xB_j \<lparr> AB_i_j = [[2, 1], [0, 1]], xB_j = [1/2, 1] \<rparr>)
     \<le> sum_list (xB_j \<lparr> AB_i_j = [[2, 0], [0, 1]], xB_j = [1, 1] \<rparr>)"
proof -
  have r: "cg_reach exact diag_solve [2, 3] [2, 1] 5 \<lparr> AB_i_j = [[2, 0], [0, 1]], xB_j = [1, 1] \<rparr>"
    by (rule cg_start [OF small_init])
  have h: "\<forall>wi\<in>set [2, 3 :: nat]. 0 < wi \<and> wi \<le> 5" "length [2, 1 :: real] = length [2, 3 :: nat]"
      "\<forall>t\<in>set [2, 1 :: real]. 0 \<le> t"
    by simp_all
  show ?thesis
    using r small_step column_generation_monotone [OF solves_diag_solve h r small_step] by blast
qed

subsection \<open>A pass in binary64 that raises the objective\<close>

lemma fl_3_8: "float64 (3/8) = 3/8"
  using float64_scaled [of "3/8" 54] by (simp add: rne_def Let_def)

lemma fl_3_4: "float64 (3/4) = 3/4"
  using float64_scaled [of "3/4" 53] by (simp add: rne_def Let_def)

lemma fl_9_8: "float64 (9/8) = 9/8"
  using float64_scaled [of "9/8" 52] by (simp add: rne_def Let_def)

lemma fl_8_3: "float64 (8/3) = 6004799503160661 / 2251799813685248"
  using float64_scaled [of "8/3" 51] by (simp add: rne_def Let_def)

lemma fl_eps: "float64 (5 / 36028797018963968) = 5 / 36028797018963968"
  using float64_scaled [of "5 / 36028797018963968" 105] by (simp add: rne_def Let_def)

lemma fl_prod0: "float64 (15 / 288230376151711744) = 15 / 288230376151711744"
  using float64_scaled [of "15 / 288230376151711744" 107] by (simp add: rne_def Let_def)

lemma fl_prod1: "float64 (15 / 144115188075855872) = 15 / 144115188075855872"
  using float64_scaled [of "15 / 144115188075855872" 106] by (simp add: rne_def Let_def)

lemma fl_absorbed: "float64 (288230376151711729 / 288230376151711744) = 1"
  using float64_scaled [of "288230376151711729 / 288230376151711744" 53] by (simp add: rne_def Let_def)

lemma fl_sum_before: "float64 (144115188075855887 / 144115188075855872) = 1"
  using float64_scaled [of "144115188075855887 / 144115188075855872" 52] by (simp add: rne_def Let_def)

lemma fl_sum_after:
  "float64 (36028797018963973 / 36028797018963968) = 4503599627370497 / 4503599627370496"
  using float64_scaled [of "36028797018963973 / 36028797018963968" 52] by (simp add: rne_def Let_def)

lemma tiny_knapsack: "knapsack [3, 5] [1/8, 1/4] 24 = Inr [3, 3]"
  by code_simp

lemma tiny_init:
  "cg_init diag_solve [3, 5] [8, 15 / 36028797018963968] 24
     = Inr \<lparr> AB_i_j = [[8, 0], [0, 4]], xB_j = [1, 15 / 144115188075855872] \<rparr>"
  by (simp add: cg_init_def diag_solve_def diag_def Let_def)

lemma tiny_step:
  "cg_step float64 diag_solve [3, 5] 24
     \<lparr> AB_i_j = [[8, 0], [0, 4]], xB_j = [1, 15 / 144115188075855872] \<rparr>
     = Inr (Some \<lparr> AB_i_j = [[8, 3], [0, 3]], xB_j = [1, 5 / 36028797018963968] \<rparr>)"
proof -
  have a: "diag_solve (transpose_mat 2 [[8, 0], [0, 4]]) (replicate 2 1) = Inr [1/8, 1/4]"
    by (simp add: transpose_mat_def column_def diag_solve_def diag_def numeral_2_eq_2)
  have b: "diag_solve [[8, 0], [0, 4]] [3, 3] = Inr [3/8, 3/4]"
    by (simp add: diag_solve_def diag_def)
  have d: "fdot float64 [1/8, 1/4] [3, 3] = 9/8"
    by (simp add: fdot_def fsum_def fl_3_8 fl_3_4 fl_9_8)
  have c: "min_by_value (thedic float64 2 [1, 15 / 144115188075855872] [3/8, 3/4])
      = Inr (1, 5 / 36028797018963968)"
    by (simp add: thedic_def min_by_value_def numeral_2_eq_2 fl_8_3 fl_eps)
  show ?thesis
    by (simp add: cg_step_def Let_def a b c d tiny_knapsack set_column_def
        numeral_2_eq_2 [symmetric] fl_prod0 fl_prod1 fl_absorbed)
qed

lemma tiny_sums:
  "fsum float64 [1, 15 / 144115188075855872] = 1"
  "fsum float64 [1, 5 / 36028797018963968] = 4503599627370497 / 4503599627370496"
  by (simp_all add: fsum_def fl_sum_before fl_sum_after)

text \<open>
  Claim C4 as stated fails in binary64. Widths \<open>3\<close> and \<open>5\<close> cut from rolls of \<open>24\<close>,
  demands \<open>8\<close> and \<open>15 \<cdot> 2\<^sup>-\<^sup>5\<^sup>5\<close>: the basis is \<open>diag(8, 4)\<close>, every answer of the solver is
  exact, and \<open>x\<^sub>B = (1, 15 \<cdot> 2\<^sup>-\<^sup>5\<^sup>7)\<close>. The first pass prices the pattern \<open>(3, 3)\<close> at
  \<open>9/8 > 1\<close> and accepts it; the ratio test returns \<open>(1, 5 \<cdot> 2\<^sup>-\<^sup>5\<^sup>5)\<close>, and
  \<open>1 - \<epsilon> \<cdot> 3/8\<close> is rounded to \<open>1\<close>. The new solution is \<open>(1, 5 \<cdot> 2\<^sup>-\<^sup>5\<^sup>5)\<close>: its sum is
  larger than before, and so is the sum that \<^verbatim>\<open>xB_j.sum()\<close> computes, which goes from
  \<open>1\<close> to \<open>1 + 2\<^sup>-\<^sup>5\<^sup>2\<close>.
\<close>

theorem column_generation_counterexample:
  "solves diag_solve \<and>
   list_all (\<lambda>wi. 0 < wi \<and> wi \<le> 24) [3, 5 :: nat] \<and>
   list_all (\<lambda>t. 0 \<le> t) [8, 15 / 2 ^ 55 :: real] \<and>
   cg_reach float64 diag_solve [3, 5] [8, 15 / 2 ^ 55] 24
     \<lparr> AB_i_j = [[8, 0], [0, 4]], xB_j = [1, 15 / 2 ^ 57] \<rparr> \<and>
   cg_step float64 diag_solve [3, 5] 24 \<lparr> AB_i_j = [[8, 0], [0, 4]], xB_j = [1, 15 / 2 ^ 57] \<rparr>
     = Inr (Some \<lparr> AB_i_j = [[8, 3], [0, 3]], xB_j = [1, 5 / 2 ^ 55] \<rparr>) \<and>
   sum_list (xB_j \<lparr> AB_i_j = [[8, 0], [0, 4]], xB_j = [1, 15 / 2 ^ 57] \<rparr>)
     < sum_list (xB_j \<lparr> AB_i_j = [[8, 3], [0, 3]], xB_j = [1, 5 / 2 ^ 55] \<rparr>) \<and>
   fsum float64 [1, 15 / 2 ^ 57] = 1 \<and>
   fsum float64 [1, 5 / 2 ^ 55] = 1 + 1 / 2 ^ 52"
proof -
  have r: "cg_reach float64 diag_solve [3, 5] [8, 15 / 2 ^ 55] 24
     \<lparr> AB_i_j = [[8, 0], [0, 4]], xB_j = [1, 15 / 2 ^ 57] \<rparr>"
    using cg_start [of diag_solve "[3, 5]" "[8, 15 / 2 ^ 55]" 24 _ float64] tiny_init by simp
  show ?thesis
    using r tiny_step tiny_sums solves_diag_solve by simp
qed

section \<open>The exit test of the Lemke-Howson loop\<close>

lemma complements_nth: "k < n + n \<Longrightarrow> complements n ! k = compl n k"
  by (auto simp: complements_def compl_def nth_append)

lemma compl_props:
  assumes "k < n + n"
  shows "compl n k < n + n" "compl n (compl n k) = k" "compl n k \<noteq> k"
  using assms by (auto simp: compl_def)

lemma fc_compl: "fc n T \<longleftrightarrow> (\<forall>k<n + n. (compl n k \<in> T) \<noteq> (k \<in> T))"
proof
  assume h: "fc n T"
  show "\<forall>k<n + n. (compl n k \<in> T) \<noteq> (k \<in> T)"
  proof (intro allI impI)
    fix k assume k: "k < n + n"
    show "(compl n k \<in> T) \<noteq> (k \<in> T)"
    proof (cases "k < n")
      case True
      then show ?thesis using h by (auto simp: fc_def compl_def)
    next
      case False
      then have a: "k - n < n" and b: "n + (k - n) = k" using k by auto
      have "(k - n \<in> T) \<noteq> (n + (k - n) \<in> T)" using h a unfolding fc_def by blast
      then show ?thesis using False b by (simp add: compl_def)
    qed
  qed
next
  assume h: "\<forall>k<n + n. (compl n k \<in> T) \<noteq> (k \<in> T)"
  show "fc n T"
    unfolding fc_def
  proof (intro allI impI)
    fix k assume "k < n"
    then have a: "k < n + n" and b: "compl n k = n + k" by (auto simp: compl_def)
    have "(compl n k \<in> T) \<noteq> (k \<in> T)" using h a by blast
    then show "(k \<in> T) \<noteq> (n + k \<in> T)" using b by auto
  qed
qed

lemma fully_complementary_fc: "fully_complementary n kb \<longleftrightarrow> fc n (set kb)"
  by (simp add: fully_complementary_def fc_def list_all_iff Ball_def)

lemma set_basis_update: "kd \<in> set kb \<Longrightarrow> set (basis_update kb ke kd) = set kb - {kd} \<union> {ke}"
  by (auto simp: basis_update_def)


text \<open>The exit test decides full complementarity, and a failed test keeps the invariant.\<close>

lemma lh_step:
  assumes inv: "lh_inv n S ke" and kd: "kd \<in> S"
  defines "S' \<equiv> S - {kd} \<union> {ke}"
  shows "(compl n ke \<notin> S' \<and> compl n kd \<in> S') \<longleftrightarrow> fc n S'"
    and "\<not> (compl n ke \<notin> S' \<and> compl n kd \<in> S') \<Longrightarrow> lh_inv n S' (compl n kd)"
proof -
  obtain x where ke: "ke < n + n" "ke \<notin> S" and S: "S \<subseteq> {..<n + n}" and x: "x \<in> S"
    and T: "fc n (S - {x} \<union> {ke})"
    using inv by (auto simp: lh_inv_def)
  let ?T = "S - {x} \<union> {ke}"
  have kdn: "kd < n + n" and xn: "x < n + n" using S kd x by auto
  note cke = compl_props [OF ke(1)]
  note ckd = compl_props [OF kdn]
  note cx = compl_props [OF xn]
  have Tc: "\<And>k. k < n + n \<Longrightarrow> (compl n k \<in> ?T) \<noteq> (k \<in> ?T)"
    using T by (simp only: fc_compl) blast
  have kdke: "kd \<noteq> ke" and xke: "x \<noteq> ke" using kd x ke(2) by auto
  have cke_T: "compl n ke \<notin> ?T" using Tc [OF ke(1)] by simp
  have cx_T: "compl n x \<in> ?T" using Tc [OF xn] xke by simp
  show iff: "(compl n ke \<notin> S' \<and> compl n kd \<in> S') \<longleftrightarrow> fc n S'"
  proof (cases "kd = x \<or> kd = compl n x")
    case True
    have "fc n S'"
      unfolding fc_compl
    proof (intro allI impI)
      fix k assume k: "k < n + n"
      show "(compl n k \<in> S') \<noteq> (k \<in> S')"
        using Tc [OF k] Tc [OF xn] Tc [OF ke(1)] True compl_props [OF k] cx cke xke kdke x kd
        unfolding S'_def by (smt (verit, best) DiffD1 DiffD2 DiffI Un_iff insertCI singletonD)
    qed
    moreover have "compl n ke \<notin> S'"
      using cke_T True cke cx xke kdke unfolding S'_def by auto
    moreover have "compl n kd \<in> S'"
      using cx_T True cke cx xke kdke x unfolding S'_def by auto
    ultimately show ?thesis by simp
  next
    case False
    then have "kd \<in> ?T" using kd by simp
    then have "compl n kd \<notin> ?T" using Tc [OF kdn] by simp
    moreover have "compl n kd \<noteq> x" using False ckd(2) by metis
    ultimately have a: "compl n kd \<notin> S'" unfolding S'_def by auto
    have "kd \<notin> S'" using kdke unfolding S'_def by simp
    then have "\<not> fc n S'" using a kdn unfolding fc_compl by blast
    then show ?thesis using a by simp
  qed
  assume nt: "\<not> (compl n ke \<notin> S' \<and> compl n kd \<in> S')"
  have F: "\<not> (kd = x \<or> kd = compl n x)"
  proof
    assume True: "kd = x \<or> kd = compl n x"
    have "compl n ke \<notin> S'"
      using cke_T True cke cx xke kdke unfolding S'_def by auto
    moreover have "compl n kd \<in> S'"
      using cx_T True cke cx xke kdke x unfolding S'_def by auto
    ultimately show False using nt by simp
  qed
  then have "kd \<in> ?T" using kd by simp
  then have ckdT: "compl n kd \<notin> ?T" using Tc [OF kdn] by simp
  have ne: "compl n kd \<noteq> x" using F ckd(2) by metis
  have a: "compl n kd \<notin> S'" using ckdT ne unfolding S'_def by auto
  have xS': "x \<in> S'" using x F unfolding S'_def by auto
  have "S' - {x} \<union> {compl n kd} = ?T - {kd} \<union> {compl n kd}"
    using F kdke xke unfolding S'_def by auto
  moreover have "fc n (?T - {kd} \<union> {compl n kd})"
    unfolding fc_compl
  proof (intro allI impI)
    fix k assume k: "k < n + n"
    show "(compl n k \<in> ?T - {kd} \<union> {compl n kd}) \<noteq> (k \<in> ?T - {kd} \<union> {compl n kd})"
      using Tc [OF k] Tc [OF kdn] compl_props [OF k] ckd \<open>kd \<in> ?T\<close>
      by (smt (verit, best) DiffD1 DiffD2 DiffI Un_iff insertCI singletonD)
  qed
  ultimately have "fc n (S' - {x} \<union> {compl n kd})" by simp
  moreover have "S' \<subseteq> {..<n + n}" using S ke(1) unfolding S'_def by auto
  ultimately show "lh_inv n S' (compl n kd)"
    using ckd(1) a xS' unfolding lh_inv_def by blast
qed


lemma lh_inv_start: "0 < n \<Longrightarrow> lh_inv n (set [0..<n]) n"
proof -
  assume n: "0 < n"
  have "fc n ({0..<n} - {0} \<union> {n})"
    using n by (auto simp: fc_def)
  then show ?thesis using n unfolding lh_inv_def by (auto intro!: bexI [where x = 0])
qed

lemma exit_test_compl:
  assumes "lh_inv n (set kb) ke" "kd \<in> set kb"
  shows "exit_test n ke kd (basis_update kb ke kd)
         \<longleftrightarrow> compl n ke \<notin> set kb - {kd} \<union> {ke} \<and> compl n kd \<in> set kb - {kd} \<union> {ke}"
proof -
  have "ke < n + n" "kd < n + n" using assms by (auto simp: lh_inv_def)
  then show ?thesis
    using assms(2) by (simp add: exit_test_def complements_nth set_basis_update)
qed

lemma lh_reach_inv: "lh_reach n s \<Longrightarrow> 0 < n \<Longrightarrow> lh_inv n (set (k_b s)) (kent s)"
proof (induction rule: lh_reach.induct)
  case lh_start
  then show ?case using lh_inv_start by simp
next
  case (lh_pivot s kdep)
  have inv: "lh_inv n (set (k_b s)) (kent s)" using lh_pivot by simp
  have kd: "kdep < n + n" using inv lh_pivot.hyps(2) by (auto simp: lh_inv_def)
  have "\<not> (compl n (kent s) \<notin> set (k_b s) - {kdep} \<union> {kent s} \<and>
            compl n kdep \<in> set (k_b s) - {kdep} \<union> {kent s})"
    using lh_pivot.hyps(3) exit_test_compl [OF inv lh_pivot.hyps(2)] by simp
  then have "lh_inv n (set (k_b s) - {kdep} \<union> {kent s}) (compl n kdep)"
    by (rule lh_step(2) [OF inv lh_pivot.hyps(2)])
  then show ?case
    using lh_pivot.hyps(2) kd by (simp add: set_basis_update complements_nth)
qed

text \<open>
  Claim C6. In every state the Lemke-Howson pivot loop reaches from the all-slack basis
  (for a game with at least one strategy), and for whichever basic variable departs,
  the loop's exit test on the updated basis holds if and only if that basis is fully
  complementary.
\<close>

theorem exit_test_iff_fully_complementary:
  assumes "0 < n" "lh_reach n s" "kdep \<in> set (k_b s)"
  shows "exit_test n (kent s) kdep (basis_update (k_b s) (kent s) kdep)
         \<longleftrightarrow> fully_complementary n (basis_update (k_b s) (kent s) kdep)"
proof -
  have inv: "lh_inv n (set (k_b s)) (kent s)" using lh_reach_inv assms(1,2) by blast
  show ?thesis
    using lh_step(1) [OF inv assms(3)] exit_test_compl [OF inv assms(3)] assms(3)
    by (simp add: fully_complementary_fc set_basis_update)
qed

text \<open>
  With two variables of each kind, the first pivot may exchange \<open>z\<^sub>1\<close> for \<open>w\<^sub>1\<close>: the
  test holds and the new basis is fully complementary.
\<close>

theorem exit_test_iff_fully_complementary_witness:
  "lh_reach 2 \<lparr> k_b = [0, 1], kent = 2 \<rparr> \<and> 0 \<in> set (k_b \<lparr> k_b = [0, 1], kent = 2 \<rparr>) \<and>
   exit_test 2 2 0 (basis_update [0, 1] 2 0) \<and> fully_complementary 2 (basis_update [0, 1] 2 0)"
proof -
  have r: "lh_reach 2 \<lparr> k_b = [0, 1], kent = 2 \<rparr>"
    using lh_start [of 2] by (simp add: numeral_2_eq_2)
  have m: "0 \<in> set (k_b \<lparr> k_b = [0, 1], kent = 2 \<rparr>)" by simp
  have e: "exit_test 2 2 0 (basis_update [0, 1] 2 0)"
    by (simp add: exit_test_def complements_def basis_update_def numeral_2_eq_2 nth_append)
  show ?thesis
    using r e exit_test_iff_fully_complementary [OF _ r m] by simp
qed

section \<open>The tableau of the Lemke-Howson solver\<close>

text \<open>
  Each pivot keeps the tableau a nonnegative basic solution of \<open>w + C z = 1\<close>, and the
  loop leaves only at a fully complementary basis.
\<close>

lemma index_of_Some: "index_of k xs = Some b \<Longrightarrow> b < length xs \<and> xs ! b = k"
  by (induction xs arbitrary: b) (auto split: if_splits)

lemma index_of_None: "index_of k xs = None \<longleftrightarrow> k \<notin> set xs"
  by (induction xs) auto

lemma index_of_nth: "distinct xs \<Longrightarrow> b < length xs \<Longrightarrow> index_of (xs ! b) xs = Some b"
proof (induction xs arbitrary: b)
  case Nil
  then show ?case by simp
next
  case (Cons a xs)
  then show ?case by (cases b) auto
qed

lemma length_var_column:
  "length C = n \<Longrightarrow> length (var_column n C k) = n"
  by (simp add: var_column_def)

lemma column_set_column:
  assumes "length M = length c" "\<forall>row\<in>set M. j < length row"
  shows "column (set_column M j c) b = (if b = j then c else column M b)"
  using assms
  by (auto simp: column_def set_column_def list_eq_iff_nth_eq nth_list_update)

lemma column_diag_ones:
  "b < n \<Longrightarrow> column (diag (replicate n 1)) b = (replicate n 0)[b := 1]"
  by (auto simp: column_def diag_def list_eq_iff_nth_eq nth_list_update)

lemma tableau_init_inv:
  assumes "solves solve" "tableau_init solve n = Inr T"
  shows "tab_inv n C T" and "basis_index_set T = [0..<n]"
proof -
  let ?B = "diag (replicate n 1)"
  obtain x where x: "solve ?B (replicate n 1) = Inr x"
    and T: "T = \<lparr> T_B = ?B, T_x = x, basis_index_set = [0..<n] \<rparr>"
    using assms(2) by (auto simp: tableau_init_def Let_def split: sum.splits)
  have lx: "length x = n" and eq: "mat_vec ?B x = replicate n 1"
    using assms(1) x by (auto simp: solves_def)
  have "x ! i = 1" if "i < n" for i
    using mat_vec_diag [of x "replicate n 1" i] lx eq that by simp
  then have "\<forall>t\<in>set x. 0 \<le> t" using lx by (simp add: all_set_conv_all_nth)
  moreover have "{0..<n} \<subseteq> {..<n + n}" by auto
  ultimately show "tab_inv n C T"
    using T lx eq diag_rows [of "replicate n 1"]
    by (simp add: tab_inv_def column_diag_ones var_column_def)
  show "basis_index_set T = [0..<n]" using T by simp
qed

lemma set_list_update_distinct:
  "distinct xs \<Longrightarrow> b < length xs \<Longrightarrow> set (xs[b := k]) = set xs - {xs ! b} \<union> {k}"
proof (induction xs arbitrary: b)
  case Nil
  then show ?case by simp
next
  case (Cons a xs)
  then show ?case by (cases b) auto
qed

lemma basis_update_nth:
  "distinct kb \<Longrightarrow> b < length kb \<Longrightarrow> basis_update kb ke (kb ! b) = kb[b := ke]"
  by (auto simp: basis_update_def list_eq_iff_nth_eq nth_list_update nth_eq_iff_index_eq)

lemma tableau_step:
  assumes sol: "solves solve" and C: "length C = n" "\<forall>row\<in>set C. length row = n"
    and inv: "tab_inv n C T" and ke: "ke \<notin> set (basis_index_set T)" and ken: "ke < n + n"
    and dd: "tableau_determine_departing solve n C T ke = Inr kd"
    and up: "tableau_update solve n C T ke kd = Inr T'"
  shows "tab_inv n C T'"
    and "kd \<in> set (basis_index_set T)"
    and "set (basis_index_set T') = set (basis_index_set T) - {kd} \<union> {ke}"
proof -
  let ?col = "var_column n C ke"
  let ?P = "as_pivoter T"
  have B: "length (T_B T) = n" "\<forall>row\<in>set (T_B T). length row = n"
    and x: "length (T_x T) = n" "\<forall>t\<in>set (T_x T). 0 \<le> t"
    and eq: "mat_vec (T_B T) (T_x T) = replicate n 1"
    and kb: "length (basis_index_set T) = n" "distinct (basis_index_set T)"
      "set (basis_index_set T) \<subseteq> {..<n + n}"
    and cols: "\<forall>b<n. column (T_B T) b = var_column n C (basis_index_set T ! b)"
    using inv by (simp_all add: tab_inv_def)
  have lcol: "length ?col = n" using C(1) by (rule length_var_column)
  obtain bdep eps where d: "determine_departing exact solve ?P ?col = Inr (bdep, eps)"
    and bl: "bdep < n" and kd: "kd = basis_index_set T ! bdep"
    using dd kb(1)
    by (auto simp: tableau_determine_departing_def split: sum.splits prod.splits if_splits)
  obtain z where z: "solve (T_B T) ?col = Inr z"
    and rt: "min_by_value (thedic exact n (T_x T) z) = Inr (bdep, eps)"
    using d B(1)
    by (auto simp: determine_departing_def as_pivoter_def split: sum.splits if_splits)
  have lz: "length z = n" and Bz: "mat_vec (T_B T) z = ?col"
    using sol z lcol by (auto simp: solves_def)
  note r = ratio_test [OF rt]
  show kdin: "kd \<in> set (basis_index_set T)" using kd bl kb(1) by simp
  have idx: "index_of kd (basis_index_set T) = Some bdep"
    using index_of_nth [OF kb(2)] bl kb(1) kd by simp
  have T': "T' = \<lparr> T_B = set_column (T_B T) bdep ?col,
                   T_x = (map2 (\<lambda>x z. x - eps * z) (T_x T) z)[bdep := eps],
                   basis_index_set = (basis_index_set T)[bdep := ke] \<rparr>"
    using up idx z r(2,3) bl B x basis_update_nth [OF kb(2), of bdep ke] kb(1) kd
    by (auto simp: tableau_update_def update_def as_pivoter_def list_ex_iff split: if_splits)
  show sets: "set (basis_index_set T') = set (basis_index_set T) - {kd} \<union> {ke}"
    using set_list_update_distinct [OF kb(2), of bdep ke] bl kb(1) kd T' by simp
  have sub: "set ((basis_index_set T)[bdep := ke]) \<subseteq> {..<n + n}"
    using sets kb(3) ken T' by auto
  have nn: "\<forall>t\<in>set ((map2 (\<lambda>x z. x - eps * z) (T_x T) z)[bdep := eps]). 0 \<le> t"
    by (rule pivot_nonneg(2) [OF rt x(1) lz x(2)])
  have ps: "mat_vec (set_column (T_B T) bdep ?col) ((map2 (\<lambda>x z. x - eps * z) (T_x T) z)[bdep := eps])
      = mat_vec (T_B T) (T_x T)"
    by (rule pivot_solution [OF rt B x(1) lz lcol Bz])
  have dist: "distinct ((basis_index_set T)[bdep := ke])"
    using kb ke bl by (simp add: distinct_list_update)
  have newcols: "\<forall>b<n. column (set_column (T_B T) bdep ?col) b
        = var_column n C ((basis_index_set T)[bdep := ke] ! b)"
  proof (intro allI impI)
    fix b assume b: "b < n"
    have "column (set_column (T_B T) bdep ?col) b = (if b = bdep then ?col else column (T_B T) b)"
      using B lcol bl by (intro column_set_column) auto
    then show "column (set_column (T_B T) bdep ?col) b
        = var_column n C ((basis_index_set T)[bdep := ke] ! b)"
      using cols b kb(1) bl by (simp add: nth_list_update)
  qed
  show "tab_inv n C T'"
    unfolding tab_inv_def T'
    using nn ps eq dist newcols B x lz lcol kb(1) sub
    by (auto simp: set_column_def set_zip)
qed

lemma lh_loop_exit:
  assumes sol: "solves solve" and C: "length C = n" "\<forall>row\<in>set C. length row = n"
  shows "lh_loop solve n C fuel T ke = Some (Inr Tf) \<Longrightarrow> tab_inv n C T \<Longrightarrow>
         lh_inv n (set (basis_index_set T)) ke \<Longrightarrow>
         tab_inv n C Tf \<and> fc n (set (basis_index_set Tf))"
proof (induction fuel arbitrary: T ke)
  case 0
  then show ?case by simp
next
  case (Suc fuel)
  obtain kd T' where dd: "tableau_determine_departing solve n C T ke = Inr kd"
    and up: "tableau_update solve n C T ke kd = Inr T'"
    and rest: "(if exit_test n ke kd (basis_index_set T') then Some (Inr T')
               else lh_loop solve n C fuel T' (complements n ! kd)) = Some (Inr Tf)"
    using Suc.prems(1) by (auto split: sum.splits)
  have ke: "ke \<notin> set (basis_index_set T)" "ke < n + n"
    using Suc.prems(3) by (simp_all add: lh_inv_def)
  note st = tableau_step [OF sol C Suc.prems(2) ke dd up]
  have kdn: "kd < n + n" using st(2) Suc.prems(3) by (auto simp: lh_inv_def)
  let ?S' = "set (basis_index_set T) - {kd} \<union> {ke}"
  have test: "exit_test n ke kd (basis_index_set T')
      \<longleftrightarrow> compl n ke \<notin> ?S' \<and> compl n kd \<in> ?S'"
    using ke(2) kdn st(3) by (simp add: exit_test_def complements_nth)
  show ?case
  proof (cases "exit_test n ke kd (basis_index_set T')")
    case True
    then have "Tf = T'" using rest by simp
    moreover have "fc n ?S'"
      using lh_step(1) [OF Suc.prems(3) st(2)] True test by simp
    ultimately show ?thesis using st(1,3) by simp
  next
    case False
    then have run: "lh_loop solve n C fuel T' (complements n ! kd) = Some (Inr Tf)"
      using rest by simp
    have "lh_inv n ?S' (compl n kd)"
      using lh_step(2) [OF Suc.prems(3) st(2)] False test by simp
    then have "lh_inv n (set (basis_index_set T')) (complements n ! kd)"
      using st(3) kdn by (simp add: complements_nth)
    then show ?thesis using Suc.IH [OF run st(1)] by simp
  qed
qed

section \<open>From a complementary solution to an equilibrium\<close>

text \<open>
  The algebra behind the solver: if \<open>r + A' y = 1\<close> with \<open>x, y, r\<close> nonnegative and
  \<open>x\<^sub>i r\<^sub>i = 0\<close>, then against \<open>q = y / \<Sum>y\<close> no row of \<open>A = A' + d\<close> pays more than
  \<open>p = x / \<Sum>x\<close> does.
\<close>

lemma nash_value:
  fixes x r p :: "nat \<Rightarrow> real" and y q :: "nat \<Rightarrow> real" and A' A :: "nat \<Rightarrow> nat \<Rightarrow> real"
  assumes nonneg: "\<forall>i<I. 0 \<le> x i" "\<forall>j<J. 0 \<le> y j"
    and row: "\<forall>i<I. r i + (\<Sum>j<J. A' i j * y j) = 1"
    and comp: "\<forall>i<I. x i * r i = 0"
    and X: "(\<Sum>i<I. x i) \<noteq> 0" and Y: "(\<Sum>j<J. y j) \<noteq> 0"
    and A: "\<forall>i<I. \<forall>j<J. A i j = A' i j + d"
    and p: "\<forall>i<I. p i = x i * (1 / (\<Sum>i<I. x i))"
    and q: "\<forall>j<J. q j = y j * (1 / (\<Sum>j<J. y j))"
  shows "(\<Sum>i<I. p i) = 1" and "(\<Sum>j<J. q j) = 1"
    and "\<forall>i<I. 0 \<le> p i" and "\<forall>j<J. 0 \<le> q j"
    and "\<forall>k<I. (\<Sum>j<J. A k j * q j) = (1 - r k) * (1 / (\<Sum>j<J. y j)) + d"
    and "(\<Sum>j<J. (\<Sum>i<I. p i * A i j) * q j) = 1 / (\<Sum>j<J. y j) + d"
proof -
  define a where "a = 1 / (\<Sum>j<J. y j)"
  define b where "b = 1 / (\<Sum>i<I. x i)"
  have "0 \<le> (\<Sum>i<I. x i)" using nonneg(1) by (intro sum_nonneg) simp
  then have Xp: "0 < (\<Sum>i<I. x i)" using X by simp
  have "0 \<le> (\<Sum>j<J. y j)" using nonneg(2) by (intro sum_nonneg) simp
  then have Yp: "0 < (\<Sum>j<J. y j)" using Y by simp
  have a0: "0 < a" using Yp by (simp add: a_def)
  have b0: "0 < b" using Xp by (simp add: b_def)
  have pq: "\<forall>i<I. p i = x i * b" "\<forall>j<J. q j = y j * a" using p q by (simp_all add: a_def b_def)
  show q1: "(\<Sum>j<J. q j) = 1"
  proof -
    have "(\<Sum>j<J. q j) = (\<Sum>j<J. y j * a)" using pq(2) by (intro sum.cong) simp_all
    also have "\<dots> = (\<Sum>j<J. y j) * a" by (simp add: sum_distrib_right)
    finally show ?thesis using Yp by (simp add: a_def)
  qed
  show p1: "(\<Sum>i<I. p i) = 1"
  proof -
    have "(\<Sum>i<I. p i) = (\<Sum>i<I. x i * b)" using pq(1) by (intro sum.cong) simp_all
    also have "\<dots> = (\<Sum>i<I. x i) * b" by (simp add: sum_distrib_right)
    finally show ?thesis using Xp by (simp add: b_def)
  qed
  show "\<forall>i<I. 0 \<le> p i" using pq(1) nonneg(1) b0 by simp
  show "\<forall>j<J. 0 \<le> q j" using pq(2) nonneg(2) a0 by simp
  have pay: "(\<Sum>j<J. A k j * q j) = (1 - r k) * a + d" if k: "k < I" for k
  proof -
    have "(\<Sum>j<J. A k j * q j) = (\<Sum>j<J. (A' k j * y j) * a + d * q j)"
      using A k pq(2) by (intro sum.cong) (simp_all add: algebra_simps)
    also have "\<dots> = (\<Sum>j<J. A' k j * y j) * a + d * (\<Sum>j<J. q j)"
      by (simp add: sum.distrib sum_distrib_right sum_distrib_left)
    also have "(\<Sum>j<J. A' k j * y j) = 1 - r k" using row k by (simp add: algebra_simps)
    finally show ?thesis using q1 by simp
  qed
  then show "\<forall>k<I. (\<Sum>j<J. A k j * q j) = (1 - r k) * (1 / (\<Sum>j<J. y j)) + d"
    by (simp add: a_def)
  have "(\<Sum>j<J. (\<Sum>i<I. p i * A i j) * q j) = (\<Sum>j<J. \<Sum>i<I. p i * (A i j * q j))"
    by (simp add: sum_distrib_right mult.assoc)
  also have "\<dots> = (\<Sum>i<I. \<Sum>j<J. p i * (A i j * q j))"
    by (rule sum.swap)
  also have "\<dots> = (\<Sum>i<I. p i * (\<Sum>j<J. A i j * q j))"
    by (simp add: sum_distrib_left)
  also have "\<dots> = (\<Sum>i<I. p i * ((1 - r i) * a + d))"
    using pay by (intro sum.cong) simp_all
  also have "\<dots> = (\<Sum>i<I. p i * (a + d))"
  proof (intro sum.cong refl)
    fix k assume k: "k \<in> {..<I}"
    then have "x k * r k = 0" using comp by simp
    then have "p k * r k = 0" using pq(1) k by auto
    then have "p k * ((1 - r k) * a) = p k * a" by (simp add: algebra_simps)
    then show "p k * ((1 - r k) * a + d) = p k * (a + d)"
      by (simp add: distrib_left)
  qed
  also have "\<dots> = a + d"
    using p1 by (simp add: sum_distrib_right [symmetric])
  finally show "(\<Sum>j<J. (\<Sum>i<I. p i * A i j) * q j) = 1 / (\<Sum>j<J. y j) + d"
    by (simp add: a_def)
qed

lemma nash_algebra:
  fixes x r p :: "nat \<Rightarrow> real" and y q :: "nat \<Rightarrow> real" and A' A :: "nat \<Rightarrow> nat \<Rightarrow> real"
  assumes nonneg: "\<forall>i<I. 0 \<le> x i" "\<forall>j<J. 0 \<le> y j" "\<forall>i<I. 0 \<le> r i"
    and row: "\<forall>i<I. r i + (\<Sum>j<J. A' i j * y j) = 1"
    and comp: "\<forall>i<I. x i * r i = 0"
    and X: "(\<Sum>i<I. x i) \<noteq> 0" and Y: "(\<Sum>j<J. y j) \<noteq> 0"
    and A: "\<forall>i<I. \<forall>j<J. A i j = A' i j + d"
    and p: "\<forall>i<I. p i = x i * (1 / (\<Sum>i<I. x i))"
    and q: "\<forall>j<J. q j = y j * (1 / (\<Sum>j<J. y j))"
    and i: "i < I"
  shows "(\<Sum>j<J. A i j * q j) \<le> (\<Sum>j<J. (\<Sum>i<I. p i * A i j) * q j)"
proof -
  note v = nash_value [OF nonneg(1,2) row comp X Y A p q]
  have "0 \<le> (\<Sum>j<J. y j)" using nonneg(2) by (intro sum_nonneg) simp
  then have "0 < (\<Sum>j<J. y j)" using Y by simp
  then have "(1 - r i) * (1 / (\<Sum>j<J. y j)) \<le> 1 / (\<Sum>j<J. y j)"
    using nonneg(3) i by (simp add: divide_le_cancel)
  then show ?thesis using v(5) i v(6) by simp
qed

text \<open>The values of the variables at a tableau, and the rows of the system in them.\<close>

lemma var_value_sum:
  assumes "distinct (basis_index_set T)" "length (basis_index_set T) = n"
  shows "var_value T k = (\<Sum>b<n. if basis_index_set T ! b = k then T_x T ! b else 0)"
proof (cases "index_of k (basis_index_set T)")
  case None
  then have "k \<notin> set (basis_index_set T)" by (simp add: index_of_None)
  then have "\<forall>b<n. basis_index_set T ! b \<noteq> k" using assms(2) by (metis nth_mem)
  then show ?thesis using None by (simp add: var_value_def)
next
  case (Some b0)
  then have b0: "b0 < n" "basis_index_set T ! b0 = k"
    using index_of_Some assms(2) by fastforce+
  have "\<And>b. b < n \<Longrightarrow> (basis_index_set T ! b = k) = (b = b0)"
    using assms b0 by (auto simp: nth_eq_iff_index_eq)
  then have "(\<Sum>b<n. if basis_index_set T ! b = k then T_x T ! b else 0)
      = (\<Sum>b<n. if b = b0 then T_x T ! b else 0)"
    by (intro sum.cong) auto
  also have "\<dots> = T_x T ! b0" using b0(1) by simp
  finally show ?thesis using Some by (simp add: var_value_def)
qed

lemma var_value_nonneg:
  assumes "\<forall>t\<in>set (T_x T). 0 \<le> t" "length (T_x T) = length (basis_index_set T)"
  shows "0 \<le> var_value T k"
proof (cases "index_of k (basis_index_set T)")
  case None
  then show ?thesis by (simp add: var_value_def)
next
  case (Some b)
  then have "b < length (T_x T)" using index_of_Some assms(2) by fastforce
  then show ?thesis using Some assms(1) by (simp add: var_value_def)
qed

lemma var_value_nonbasic: "k \<notin> set (basis_index_set T) \<Longrightarrow> var_value T k = 0"
  by (simp add: var_value_def index_of_None [THEN iffD2])

text \<open>Summing over the basis positions is summing over the variables.\<close>

lemma regroup:
  assumes "distinct (basis_index_set T)" "length (basis_index_set T) = n"
    "set (basis_index_set T) \<subseteq> {..<m}"
  shows "(\<Sum>b<n. g (basis_index_set T ! b) * T_x T ! b) = (\<Sum>k<m. g k * var_value T k)"
proof -
  have "(\<Sum>k<m. g k * var_value T k)
      = (\<Sum>k<m. \<Sum>b<n. if basis_index_set T ! b = k then g k * T_x T ! b else 0)"
    by (simp add: var_value_sum [OF assms(1,2)] sum_distrib_left if_distrib [of "\<lambda>t. _ * t"] cong: if_cong)
  also have "\<dots> = (\<Sum>b<n. \<Sum>k<m. if basis_index_set T ! b = k then g k * T_x T ! b else 0)"
    by (rule sum.swap)
  also have "\<dots> = (\<Sum>b<n. g (basis_index_set T ! b) * T_x T ! b)"
  proof (intro sum.cong refl)
    fix b assume "b \<in> {..<n}"
    then have "basis_index_set T ! b < m" using assms(2,3) by (auto simp: subset_iff)
    then show "(\<Sum>k<m. if basis_index_set T ! b = k then g k * T_x T ! b else 0)
        = g (basis_index_set T ! b) * T_x T ! b"
      by simp
  qed
  finally show ?thesis by simp
qed

lemma sum_split_add: "(\<Sum>k<n + (m::nat). f k) = (\<Sum>k<n. f k) + (\<Sum>l<m. (f (n + l) :: real))"
  by (induction m) (simp_all add: add.assoc)

lemma lcp_row:
  assumes inv: "tab_inv n C T" and C: "length C = n" and r: "r < n"
  shows "var_value T r + (\<Sum>l<n. C ! r ! l * var_value T (n + l)) = 1"
proof -
  have B: "length (T_B T) = n" "\<forall>row\<in>set (T_B T). length row = n"
    and x: "length (T_x T) = n"
    and eq: "mat_vec (T_B T) (T_x T) = replicate n 1"
    and kb: "length (basis_index_set T) = n" "distinct (basis_index_set T)"
      "set (basis_index_set T) \<subseteq> {..<n + n}"
    and cols: "\<forall>b<n. column (T_B T) b = var_column n C (basis_index_set T ! b)"
    using inv by (simp_all add: tab_inv_def)
  let ?g = "\<lambda>k. var_column n C k ! r"
  have row: "length (T_B T ! r) = n" using B r by simp
  have "1 = mat_vec (T_B T) (T_x T) ! r" using eq r by simp
  also have "\<dots> = (\<Sum>b<n. T_B T ! r ! b * T_x T ! b)"
    using B(1) r row x by (simp add: dot_sum)
  also have "\<dots> = (\<Sum>b<n. ?g (basis_index_set T ! b) * T_x T ! b)"
  proof (intro sum.cong refl)
    fix b assume "b \<in> {..<n}"
    then have "column (T_B T) b = var_column n C (basis_index_set T ! b)" using cols by simp
    then have "column (T_B T) b ! r = ?g (basis_index_set T ! b)" by simp
    then show "T_B T ! r ! b * T_x T ! b = ?g (basis_index_set T ! b) * T_x T ! b"
      using B(1) r by simp
  qed
  also have "\<dots> = (\<Sum>k<n + n. ?g k * var_value T k)"
    by (rule regroup [OF kb(2,1,3)])
  also have "\<dots> = (\<Sum>k<n. ?g k * var_value T k) + (\<Sum>l<n. ?g (n + l) * var_value T (n + l))"
    by (rule sum_split_add)
  also have "(\<Sum>k<n. ?g k * var_value T k) = (\<Sum>k<n. if k = r then var_value T k else 0)"
    using r by (intro sum.cong) (auto simp: var_column_def nth_list_update)
  also have "\<dots> = var_value T r" using r by simp
  also have "(\<Sum>l<n. ?g (n + l) * var_value T (n + l)) = (\<Sum>l<n. C ! r ! l * var_value T (n + l))"
    using r C by (intro sum.cong) (simp_all add: var_column_def)
  finally show ?thesis by simp
qed

lemma lcp_complementary:
  assumes "fc n (set (basis_index_set T))" "k < n"
  shows "var_value T k = 0 \<or> var_value T (n + k) = 0"
  using assms var_value_nonbasic [of k T] var_value_nonbasic [of "n + k" T]
  unfolding fc_def by blast

lemma length_tableau_solution [simp]: "length (tableau_solution n T) = n"
  by (simp add: tableau_solution_def)

lemma nth_tableau_solution: "k < n \<Longrightarrow> tableau_solution n T ! k = var_value T (n + k)"
  by (simp add: tableau_solution_def var_value_def)

lemma length_C_k_l: "length A = ni \<Longrightarrow> length (C_k_l ni nj A B) = ni + nj"
  by (simp add: C_k_l_def)

lemma C_k_l_rows:
  assumes "\<forall>row\<in>set A. length row = nj" "length B = ni"
  shows "\<forall>row\<in>set (C_k_l ni nj A B). length row = ni + nj"
  using assms by (auto simp: C_k_l_def)

lemma C_k_l_upper:
  assumes "length A = ni" "i < ni"
  shows "C_k_l ni nj A B ! i ! l = (if l < ni then 0 else A ! i ! (l - ni))"
  using assms by (simp add: C_k_l_def nth_append)

lemma C_k_l_lower:
  assumes "length A = ni" "length B = ni" "j < nj"
  shows "C_k_l ni nj A B ! (ni + j) ! l = (if l < ni then B ! l ! j else replicate nj 0 ! (l - ni))"
  using assms by (simp add: C_k_l_def nth_append)

lemma shift_nth:
  assumes "i < length M" "j < length (M ! i)"
  shows "shift M ! i ! j = M ! i ! j - Min (set (concat M)) + 1"
  using assms by (simp add: shift_def Let_def)

lemma length_shift [simp]: "length (shift M) = length M"
  by (simp add: shift_def Let_def)

lemma shift_rows: "\<forall>row\<in>set M. length row = nj \<Longrightarrow> \<forall>row\<in>set (shift M). length row = nj"
  by (auto simp: shift_def Let_def)

lemma dot_unit_vec:
  assumes "length x = n" "i < n"
  shows "dot (unit_vec n i) x = x ! i"
  using dot_unit [OF assms, of 1] by (simp add: unit_vec_def)

lemma dot_commute: "dot a b = dot b a"
proof -
  have "map2 (*) a b = map2 (*) b (a :: real list)"
    by (induction a arbitrary: b) (auto simp: mult.commute split: list.splits  simp: zip_Cons1)
  then show ?thesis by (simp add: dot_def)
qed

lemma payoff_pure_row:
  assumes "length A = ni" "length q = nj" "i < ni"
  shows "dot (vec_mat nj (unit_vec ni i) A) q = (\<Sum>j<nj. A ! i ! j * q ! j)"
  using assms by (simp add: dot_sum dot_unit_vec)

lemma payoff_mixed:
  assumes "length A = ni" "length p = ni" "length q = nj"
  shows "dot (vec_mat nj p A) q = (\<Sum>j<nj. (\<Sum>i<ni. p ! i * A ! i ! j) * q ! j)"
  using assms by (simp add: dot_sum)

lemma payoff_pure_col:
  assumes "length B = ni" "length p = ni" "j < nj"
  shows "dot (vec_mat nj p B) (unit_vec nj j) = (\<Sum>i<ni. p ! i * B ! i ! j)"
proof -
  have "dot (vec_mat nj p B) (unit_vec nj j) = dot (unit_vec nj j) (vec_mat nj p B)"
    by (rule dot_commute)
  also have "\<dots> = vec_mat nj p B ! j" using assms by (simp add: dot_unit_vec)
  finally show ?thesis using assms by (simp add: dot_sum)
qed

lemma equilibrium_rows:
  assumes inv: "tab_inv (ni + nj) (C_k_l ni nj A B) T"
    and A: "length A = ni" and B: "length B = ni"
  shows "i < ni \<Longrightarrow>
           var_value T i + (\<Sum>j<nj. A ! i ! j * var_value T (ni + nj + (ni + j))) = 1"
    and "j < nj \<Longrightarrow>
           var_value T (ni + j) + (\<Sum>i<ni. B ! i ! j * var_value T (ni + nj + i)) = 1"
proof -
  let ?n = "ni + nj" and ?C = "C_k_l ni nj A B"
  have C: "length ?C = ?n" using A by (rule length_C_k_l)
  have split: "(\<Sum>l<?n. ?C ! k ! l * var_value T (?n + l))
      = (\<Sum>l<ni. ?C ! k ! l * var_value T (?n + l))
        + (\<Sum>l<nj. ?C ! k ! (ni + l) * var_value T (?n + (ni + l)))" for k
    by (rule sum_split_add)
  {
    assume i: "i < ni"
    have "var_value T i + (\<Sum>l<?n. ?C ! i ! l * var_value T (?n + l)) = 1"
      using i by (intro lcp_row [OF inv C]) simp
    moreover have "(\<Sum>l<ni. ?C ! i ! l * var_value T (?n + l)) = 0"
      using A i by (simp add: C_k_l_upper)
    moreover have "(\<Sum>l<nj. ?C ! i ! (ni + l) * var_value T (?n + (ni + l)))
        = (\<Sum>j<nj. A ! i ! j * var_value T (?n + (ni + j)))"
      using A i by (simp add: C_k_l_upper)
    ultimately show "var_value T i + (\<Sum>j<nj. A ! i ! j * var_value T (?n + (ni + j))) = 1"
      using split [of i] by simp
  }
  {
    assume j: "j < nj"
    have "var_value T (ni + j) + (\<Sum>l<?n. ?C ! (ni + j) ! l * var_value T (?n + l)) = 1"
      using j by (intro lcp_row [OF inv C]) simp
    moreover have "(\<Sum>l<nj. ?C ! (ni + j) ! (ni + l) * var_value T (?n + (ni + l))) = 0"
      using A B j by (simp add: C_k_l_lower)
    moreover have "(\<Sum>l<ni. ?C ! (ni + j) ! l * var_value T (?n + l))
        = (\<Sum>i<ni. B ! i ! j * var_value T (?n + i))"
      using A B j by (simp add: C_k_l_lower)
    ultimately show "var_value T (ni + j) + (\<Sum>i<ni. B ! i ! j * var_value T (?n + i)) = 1"
      using split [of "ni + j"] by simp
  }
qed

lemma list_ex_upt: "list_ex P [0..<k] \<longleftrightarrow> (\<exists>i<k. P i)"
  by (auto simp: list_ex_iff)

lemma is_NashEq_iff:
  "is_NashEq G p q tol \<longleftrightarrow>
     (\<forall>i<nbi G. dot (vec_mat (nbj G) (unit_vec (nbi G) i) (A_i_j G)) q
                  \<le> dot (vec_mat (nbj G) p (A_i_j G)) q + tol) \<and>
     (\<forall>j<nbj G. dot (vec_mat (nbj G) p (B_i_j G)) (unit_vec (nbj G) j)
                  \<le> dot (vec_mat (nbj G) p (B_i_j G)) q + tol)"
  unfolding is_NashEq_def list_ex_upt by (simp add: not_less) (meson not_less)

lemma complementary_basis_equilibrium:
  assumes G: "game_shaped G"
    and inv: "tab_inv (nbi G + nbj G)
                (C_k_l (nbi G) (nbj G) (shift (A_i_j G)) (shift (B_i_j G))) T"
    and fc: "fc (nbi G + nbj G) (set (basis_index_set T))"
    and X: "sum_list (take (nbi G) (tableau_solution (nbi G + nbj G) T)) \<noteq> 0"
    and Y: "sum_list (drop (nbi G) (tableau_solution (nbi G + nbj G) T)) \<noteq> 0"
    and p: "p = map (\<lambda>t. t * (1 / sum_list (take (nbi G) (tableau_solution (nbi G + nbj G) T))))
                  (take (nbi G) (tableau_solution (nbi G + nbj G) T))"
    and q: "q = map (\<lambda>t. t * (1 / sum_list (drop (nbi G) (tableau_solution (nbi G + nbj G) T))))
                  (drop (nbi G) (tableau_solution (nbi G + nbj G) T))"
    and tol: "0 \<le> tol"
  shows "is_NashEq G p q tol"
    and "length p = nbi G \<and> list_all (\<lambda>t. 0 \<le> t) p \<and> sum_list p = 1"
    and "length q = nbj G \<and> list_all (\<lambda>t. 0 \<le> t) q \<and> sum_list q = 1"
    and "dot (vec_mat (nbj G) p (A_i_j G)) q
         = 1 / sum_list (drop (nbi G) (tableau_solution (nbi G + nbj G) T))
           + Min (set (concat (A_i_j G))) - 1"
    and "dot (vec_mat (nbj G) p (B_i_j G)) q
         = 1 / sum_list (take (nbi G) (tableau_solution (nbi G + nbj G) T))
           + Min (set (concat (B_i_j G))) - 1"
proof -
  let ?ni = "nbi G" and ?nj = "nbj G"
  let ?n = "?ni + ?nj"
  let ?A = "A_i_j G" and ?B = "B_i_j G"
  let ?z = "tableau_solution ?n T"
  define x where "x i = var_value T (?n + i)" for i
  define y where "y j = var_value T (?n + (?ni + j))" for j
  define r where "r i = var_value T i" for i
  define s where "s j = var_value T (?ni + j)" for j
  have A: "length ?A = ?ni" "\<forall>row\<in>set ?A. length row = ?nj"
    and B: "length ?B = ?ni" "\<forall>row\<in>set ?B. length row = ?nj"
    using G by (simp_all add: game_shaped_def list_all_iff)
  have rowsA: "\<And>i. i < ?ni \<Longrightarrow> length (?A ! i) = ?nj" using A by simp
  have rowsB: "\<And>i. i < ?ni \<Longrightarrow> length (?B ! i) = ?nj" using B by simp
  have xlen: "length (T_x T) = length (basis_index_set T)" "\<forall>t\<in>set (T_x T). 0 \<le> t"
    using inv by (simp_all add: tab_inv_def)
  have nonneg: "\<And>k. 0 \<le> var_value T k"
    using var_value_nonneg [OF xlen(2,1)] .
  have comp: "var_value T k * var_value T (?n + k) = 0" if "k < ?n" for k
    using lcp_complementary [OF fc that] by auto
  have rows: "\<And>i. i < ?ni \<Longrightarrow> r i + (\<Sum>j<?nj. shift ?A ! i ! j * y j) = 1"
    "\<And>j. j < ?nj \<Longrightarrow> s j + (\<Sum>i<?ni. shift ?B ! i ! j * x i) = 1"
    using equilibrium_rows [OF inv] A(1) B(1) by (simp_all add: x_def y_def r_def s_def)
  have takez: "length (take ?ni ?z) = ?ni" "\<And>i. i < ?ni \<Longrightarrow> take ?ni ?z ! i = x i"
    by (simp_all add: nth_tableau_solution x_def)
  have dropz: "length (drop ?ni ?z) = ?nj" "\<And>j. j < ?nj \<Longrightarrow> drop ?ni ?z ! j = y j"
    by (simp_all add: nth_tableau_solution y_def)
  have sx: "sum_list (take ?ni ?z) = (\<Sum>i<?ni. x i)"
    using takez by (simp add: sum_list_lessThan)
  have sy: "sum_list (drop ?ni ?z) = (\<Sum>j<?nj. y j)"
    using dropz by (simp add: sum_list_lessThan)
  have lp: "length p = ?ni" and lq: "length q = ?nj" using p q takez(1) dropz(1) by simp_all
  have pn: "\<forall>i<?ni. p ! i = x i * (1 / (\<Sum>i<?ni. x i))"
    using p takez sx by simp
  have qn: "\<forall>j<?nj. q ! j = y j * (1 / (\<Sum>j<?nj. y j))"
    using q dropz sy by simp
  have x0: "\<forall>i<?ni. 0 \<le> x i" and y0: "\<forall>j<?nj. 0 \<le> y j"
    and r0: "\<forall>i<?ni. 0 \<le> r i" and s0: "\<forall>j<?nj. 0 \<le> s j"
    using nonneg by (simp_all add: x_def y_def r_def s_def)
  have rowA: "\<forall>i<?ni. r i + (\<Sum>j<?nj. shift ?A ! i ! j * y j) = 1" using rows(1) by simp
  have rowB: "\<forall>j<?nj. s j + (\<Sum>i<?ni. shift ?B ! i ! j * x i) = 1" using rows(2) by simp
  have compA: "\<forall>i<?ni. x i * r i = 0" using comp by (simp add: x_def r_def mult.commute)
  have compB: "\<forall>j<?nj. y j * s j = 0"
    using comp [of "?ni + _"] by (simp add: y_def s_def mult.commute)
  have Xs: "(\<Sum>i<?ni. x i) \<noteq> 0" using X sx by simp
  have Ys: "(\<Sum>j<?nj. y j) \<noteq> 0" using Y sy by simp
  have shA: "\<forall>i<?ni. \<forall>j<?nj. ?A ! i ! j = shift ?A ! i ! j + (Min (set (concat ?A)) - 1)"
    using A(1) rowsA by (simp add: shift_nth)
  have shB: "\<forall>j<?nj. \<forall>i<?ni. ?B ! i ! j = shift ?B ! i ! j + (Min (set (concat ?B)) - 1)"
    using B(1) rowsB by (simp add: shift_nth)
  note vA = nash_value [where x = x and y = y and r = r and p = "\<lambda>i. p ! i" and q = "\<lambda>j. q ! j"
      and A' = "\<lambda>i j. shift ?A ! i ! j" and A = "\<lambda>i j. ?A ! i ! j",
      OF x0 y0 rowA compA Xs Ys shA pn qn]
  note vB = nash_value [where x = y and y = x and r = s and p = "\<lambda>j. q ! j" and q = "\<lambda>i. p ! i"
      and A' = "\<lambda>j i. shift ?B ! i ! j" and A = "\<lambda>j i. ?B ! i ! j",
      OF y0 x0 rowB compB Ys Xs shB qn pn]
  have swapB: "(\<Sum>i<?ni. (\<Sum>j<?nj. q ! j * ?B ! i ! j) * p ! i)
      = (\<Sum>j<?nj. (\<Sum>i<?ni. p ! i * ?B ! i ! j) * q ! j)"
  proof -
    have "(\<Sum>i<?ni. (\<Sum>j<?nj. q ! j * ?B ! i ! j) * p ! i)
        = (\<Sum>i<?ni. \<Sum>j<?nj. p ! i * ?B ! i ! j * q ! j)"
      by (simp add: sum_distrib_right sum_distrib_left mult_ac)
    also have "\<dots> = (\<Sum>j<?nj. \<Sum>i<?ni. p ! i * ?B ! i ! j * q ! j)"
      by (rule sum.swap)
    also have "\<dots> = (\<Sum>j<?nj. (\<Sum>i<?ni. p ! i * ?B ! i ! j) * q ! j)"
      by (simp add: sum_distrib_right)
    finally show ?thesis .
  qed
  have first: "(\<Sum>j<?nj. ?A ! i ! j * q ! j) \<le> (\<Sum>j<?nj. (\<Sum>i<?ni. p ! i * ?A ! i ! j) * q ! j)"
    if i: "i < ?ni" for i
    by (rule nash_algebra [where x = x and y = y and r = r
          and A' = "\<lambda>i j. shift ?A ! i ! j" and A = "\<lambda>i j. ?A ! i ! j",
          OF x0 y0 r0 rowA compA Xs Ys shA pn qn i])
  have second: "(\<Sum>i<?ni. p ! i * ?B ! i ! j) \<le> (\<Sum>j<?nj. (\<Sum>i<?ni. p ! i * ?B ! i ! j) * q ! j)"
    if j: "j < ?nj" for j
  proof -
    have "(\<Sum>i<?ni. ?B ! i ! j * p ! i) \<le> (\<Sum>i<?ni. (\<Sum>j<?nj. q ! j * ?B ! i ! j) * p ! i)"
      by (rule nash_algebra [where x = y and y = x and r = s
            and A' = "\<lambda>j i. shift ?B ! i ! j" and A = "\<lambda>j i. ?B ! i ! j",
            OF y0 x0 s0 rowB compB Ys Xs shB qn pn j])
    then show ?thesis unfolding swapB by (simp add: mult.commute)
  qed
  show "is_NashEq G p q tol"
    unfolding is_NashEq_iff
    using first second tol A(1) B(1) lp lq
    by (simp add: payoff_pure_row payoff_mixed payoff_pure_col add_increasing2)
  have "sum_list p = (\<Sum>i<?ni. p ! i)" using lp by (simp add: sum_list_lessThan)
  moreover have "list_all (\<lambda>t. 0 \<le> t) p" using vA(3) lp by (simp add: list_all_length)
  ultimately show "length p = ?ni \<and> list_all (\<lambda>t. 0 \<le> t) p \<and> sum_list p = 1"
    using lp vA(1) by simp
  have "sum_list q = (\<Sum>j<?nj. q ! j)" using lq by (simp add: sum_list_lessThan)
  moreover have "list_all (\<lambda>t. 0 \<le> t) q" using vA(4) lq by (simp add: list_all_length)
  ultimately show "length q = ?nj \<and> list_all (\<lambda>t. 0 \<le> t) q \<and> sum_list q = 1"
    using lq vA(2) by simp
  show "dot (vec_mat ?nj p ?A) q = 1 / sum_list (drop ?ni ?z) + Min (set (concat ?A)) - 1"
    using vA(6) A(1) lp lq by (simp add: payoff_mixed sy)
  show "dot (vec_mat ?nj p ?B) q = 1 / sum_list (take ?ni ?z) + Min (set (concat ?B)) - 1"
    using vB(6) B(1) lp lq unfolding swapB by (simp add: payoff_mixed sx)
qed

lemma lemke_howson_solve_Inr:
  assumes run: "lemke_howson_solve solve fuel G = Some (Inr r)"
  shows "\<exists>T0 T. tableau_init solve (nbi G + nbj G) = Inr T0 \<and>
     lh_loop solve (nbi G + nbj G)
       (C_k_l (nbi G) (nbj G) (shift (A_i_j G)) (shift (B_i_j G))) fuel T0 (nbi G + nbj G)
       = Some (Inr T) \<and>
     sum_list (take (nbi G) (tableau_solution (nbi G + nbj G) T)) \<noteq> 0 \<and>
     sum_list (drop (nbi G) (tableau_solution (nbi G + nbj G) T)) \<noteq> 0 \<and>
     p_i r = map (\<lambda>t. t * (1 / sum_list (take (nbi G) (tableau_solution (nbi G + nbj G) T))))
               (take (nbi G) (tableau_solution (nbi G + nbj G) T)) \<and>
     q_j r = map (\<lambda>t. t * (1 / sum_list (drop (nbi G) (tableau_solution (nbi G + nbj G) T))))
               (drop (nbi G) (tableau_solution (nbi G + nbj G) T)) \<and>
     val1 r = 1 / sum_list (drop (nbi G) (tableau_solution (nbi G + nbj G) T))
               + Min (set (concat (A_i_j G))) - 1 \<and>
     val2 r = 1 / sum_list (take (nbi G) (tableau_solution (nbi G + nbj G) T))
               + Min (set (concat (B_i_j G))) - 1"
proof (cases "tableau_init solve (nbi G + nbj G)")
  case (Inl e)
  then show ?thesis using run by (simp add: lemke_howson_solve_def)
next
  case init: (Inr T0)
  let ?n = "nbi G + nbj G"
  let ?C = "C_k_l (nbi G) (nbj G) (shift (A_i_j G)) (shift (B_i_j G))"
  show ?thesis
  proof (cases "lh_loop solve ?n ?C fuel T0 ?n")
    case None
    then show ?thesis using run init by (simp add: lemke_howson_solve_def)
  next
    case (Some res)
    show ?thesis
    proof (cases res)
      case (Inl e)
      then show ?thesis using run init Some by (simp add: lemke_howson_solve_def)
    next
      case (Inr T)
      let ?z = "tableau_solution ?n T"
      have eq: "lemke_howson_solve solve fuel G =
          (if sum_list (drop (nbi G) ?z) = 0 \<or> sum_list (take (nbi G) ?z) = 0
           then Some (Inl ZeroDivisionError)
           else Some (Inr \<lparr> p_i = map (\<lambda>t. t * (1 / sum_list (take (nbi G) ?z))) (take (nbi G) ?z),
                               q_j = map (\<lambda>t. t * (1 / sum_list (drop (nbi G) ?z))) (drop (nbi G) ?z),
                               val1 = 1 / sum_list (drop (nbi G) ?z) + Min (set (concat (A_i_j G))) - 1,
                               val2 = 1 / sum_list (take (nbi G) ?z) + Min (set (concat (B_i_j G))) - 1 \<rparr>))"
        using init Some Inr by (simp add: lemke_howson_solve_def Let_def)
      have nz: "sum_list (drop (nbi G) ?z) \<noteq> 0" "sum_list (take (nbi G) ?z) \<noteq> 0"
        using run unfolding eq by (simp_all split: if_splits)
      then have "r = \<lparr> p_i = map (\<lambda>t. t * (1 / sum_list (take (nbi G) ?z))) (take (nbi G) ?z),
                               q_j = map (\<lambda>t. t * (1 / sum_list (drop (nbi G) ?z))) (drop (nbi G) ?z),
                               val1 = 1 / sum_list (drop (nbi G) ?z) + Min (set (concat (A_i_j G))) - 1,
                               val2 = 1 / sum_list (take (nbi G) ?z) + Min (set (concat (B_i_j G))) - 1 \<rparr>"
        using run unfolding eq by simp
      then have "p_i r = map (\<lambda>t. t * (1 / sum_list (take (nbi G) ?z))) (take (nbi G) ?z)"
        "q_j r = map (\<lambda>t. t * (1 / sum_list (drop (nbi G) ?z))) (drop (nbi G) ?z)"
        "val1 r = 1 / sum_list (drop (nbi G) ?z) + Min (set (concat (A_i_j G))) - 1"
        "val2 r = 1 / sum_list (take (nbi G) ?z) + Min (set (concat (B_i_j G))) - 1"
        by simp_all
      then show ?thesis using init Some Inr nz by blast
    qed
  qed
qed

section \<open>The solver on the game of the notebook\<close>

text \<open>Gauss-Jordan elimination answers only with solutions.\<close>

lemma solves_gauss_solve: "solves gauss_solve"
  by (auto simp: solves_def gauss_solve_def Let_def split: if_splits option.splits)

lemma pritchard_shaped: "game_shaped pritchard_ex"
  by (simp add: game_shaped_def pritchard_ex_def)

text \<open>
  The six pivots of \<^verbatim>\<open>pritchard_ex.lemke_howson_solve(verbose=2)\<close>, each with the column
  of the entering variable, the solution of \<open>B z = N\<close>, the ratio test and the update.
  With the variables numbered \<open>r\<^sub>1 r\<^sub>2 r\<^sub>3 s\<^sub>1 s\<^sub>2 s\<^sub>3 x\<^sub>1 x\<^sub>2 x\<^sub>3 y\<^sub>1 y\<^sub>2 y\<^sub>3\<close> from \<open>0\<close> to \<open>11\<close>
  they are the pivots the notebook prints: \<open>x\<^sub>1\<close> enters and \<open>s\<^sub>1\<close> departs, then
  \<open>y\<^sub>1\<close> for \<open>r\<^sub>3\<close>, \<open>x\<^sub>3\<close> for \<open>s\<^sub>3\<close>, \<open>y\<^sub>3\<close> for \<open>r\<^sub>2\<close>, \<open>x\<^sub>2\<close> for \<open>s\<^sub>2\<close> and
  \<open>y\<^sub>2\<close> for \<open>r\<^sub>1\<close>.
\<close>

lemma pritchard_step1_column: "var_column 6 pritchard_C 6 = [0, 0, 0, 3, 2, 1]"
  by (simp add: var_column_def pritchard_C_def column_def)

lemma pritchard_step1_solve:
  "gauss_solve [[1, 0, 0, 0, 0, 0], [0, 1, 0, 0, 0, 0], [0, 0, 1, 0, 0, 0], [0, 0, 0, 1, 0, 0], [0, 0, 0, 0, 1, 0], [0, 0, 0, 0, 0, 1]]
     [0, 0, 0, 3, 2, 1] = Inr [0, 0, 0, 3, 2, 1]"
  by (simp add: gauss_solve_def Let_def scale_row_def sub_row_def mat_vec_def dot_def)

lemma pritchard_step1_ratio:
  "min_by_value (thedic exact (Suc (Suc (Suc (Suc (Suc (Suc 0)))))) [1, 1, 1, 1, 1, 1]
     [0, 0, 0, 3, 2, 1]) = Inr (3, 1 / 3)"
  by (simp add: thedic_def min_by_value_def)

lemma pritchard_step1_departing:
  "tableau_determine_departing gauss_solve 6 pritchard_C
     \<lparr> T_B = [[1, 0, 0, 0, 0, 0], [0, 1, 0, 0, 0, 0], [0, 0, 1, 0, 0, 0], [0, 0, 0, 1, 0, 0], [0, 0, 0, 0, 1, 0], [0, 0, 0, 0, 0, 1]],
       T_x = [1, 1, 1, 1, 1, 1],
       basis_index_set = [0, Suc 0, 2, 3, 4, 5] \<rparr> 6 = Inr 3"
  by (simp add: tableau_determine_departing_def determine_departing_def as_pivoter_def
      pritchard_step1_column pritchard_step1_solve pritchard_step1_ratio)

lemma pritchard_step1_update:
  "tableau_update gauss_solve 6 pritchard_C
     \<lparr> T_B = [[1, 0, 0, 0, 0, 0], [0, 1, 0, 0, 0, 0], [0, 0, 1, 0, 0, 0], [0, 0, 0, 1, 0, 0], [0, 0, 0, 0, 1, 0], [0, 0, 0, 0, 0, 1]],
       T_x = [1, 1, 1, 1, 1, 1],
       basis_index_set = [0, Suc 0, 2, 3, 4, 5] \<rparr> 6 3
   = Inr \<lparr> T_B = [[1, 0, 0, 0, 0, 0], [0, 1, 0, 0, 0, 0], [0, 0, 1, 0, 0, 0], [0, 0, 0, 3, 0, 0], [0, 0, 0, 2, 1, 0], [0, 0, 0, 1, 0, 1]],
       T_x = [1, 1, 1, 1 / 3, 1 / 3, 2 / 3],
       basis_index_set = [0, Suc 0, 2, 6, 4, 5] \<rparr>"
  by (simp add: tableau_update_def update_def as_pivoter_def pritchard_step1_column pritchard_step1_solve
      set_column_def basis_update_def)

lemma pritchard_step2_column: "var_column 6 pritchard_C 9 = [2, 1, 3, 0, 0, 0]"
  by (simp add: var_column_def pritchard_C_def column_def)

lemma pritchard_step2_solve:
  "gauss_solve [[1, 0, 0, 0, 0, 0], [0, 1, 0, 0, 0, 0], [0, 0, 1, 0, 0, 0], [0, 0, 0, 3, 0, 0], [0, 0, 0, 2, 1, 0], [0, 0, 0, 1, 0, 1]]
     [2, 1, 3, 0, 0, 0] = Inr [2, 1, 3, 0, 0, 0]"
  by (simp add: gauss_solve_def Let_def scale_row_def sub_row_def mat_vec_def dot_def)

lemma pritchard_step2_ratio:
  "min_by_value (thedic exact (Suc (Suc (Suc (Suc (Suc (Suc 0)))))) [1, 1, 1, 1 / 3, 1 / 3, 2 / 3]
     [2, 1, 3, 0, 0, 0]) = Inr (2, 1 / 3)"
  by (simp add: thedic_def min_by_value_def)

lemma pritchard_step2_departing:
  "tableau_determine_departing gauss_solve 6 pritchard_C
     \<lparr> T_B = [[1, 0, 0, 0, 0, 0], [0, 1, 0, 0, 0, 0], [0, 0, 1, 0, 0, 0], [0, 0, 0, 3, 0, 0], [0, 0, 0, 2, 1, 0], [0, 0, 0, 1, 0, 1]],
       T_x = [1, 1, 1, 1 / 3, 1 / 3, 2 / 3],
       basis_index_set = [0, Suc 0, 2, 6, 4, 5] \<rparr> 9 = Inr 2"
  by (simp add: tableau_determine_departing_def determine_departing_def as_pivoter_def
      pritchard_step2_column pritchard_step2_solve pritchard_step2_ratio)

lemma pritchard_step2_update:
  "tableau_update gauss_solve 6 pritchard_C
     \<lparr> T_B = [[1, 0, 0, 0, 0, 0], [0, 1, 0, 0, 0, 0], [0, 0, 1, 0, 0, 0], [0, 0, 0, 3, 0, 0], [0, 0, 0, 2, 1, 0], [0, 0, 0, 1, 0, 1]],
       T_x = [1, 1, 1, 1 / 3, 1 / 3, 2 / 3],
       basis_index_set = [0, Suc 0, 2, 6, 4, 5] \<rparr> 9 2
   = Inr \<lparr> T_B = [[1, 0, 2, 0, 0, 0], [0, 1, 1, 0, 0, 0], [0, 0, 3, 0, 0, 0], [0, 0, 0, 3, 0, 0], [0, 0, 0, 2, 1, 0], [0, 0, 0, 1, 0, 1]],
       T_x = [1 / 3, 2 / 3, 1 / 3, 1 / 3, 1 / 3, 2 / 3],
       basis_index_set = [0, Suc 0, 9, 6, 4, 5] \<rparr>"
  by (simp add: tableau_update_def update_def as_pivoter_def pritchard_step2_column pritchard_step2_solve
      set_column_def basis_update_def)

lemma pritchard_step3_column: "var_column 6 pritchard_C 8 = [0, 0, 0, 1, 1, 4]"
  by (simp add: var_column_def pritchard_C_def column_def)

lemma pritchard_step3_solve:
  "gauss_solve [[1, 0, 2, 0, 0, 0], [0, 1, 1, 0, 0, 0], [0, 0, 3, 0, 0, 0], [0, 0, 0, 3, 0, 0], [0, 0, 0, 2, 1, 0], [0, 0, 0, 1, 0, 1]]
     [0, 0, 0, 1, 1, 4] = Inr [0, 0, 0, 1 / 3, 1 / 3, 11 / 3]"
  by (simp add: gauss_solve_def Let_def scale_row_def sub_row_def mat_vec_def dot_def)

lemma pritchard_step3_ratio:
  "min_by_value (thedic exact (Suc (Suc (Suc (Suc (Suc (Suc 0)))))) [1 / 3, 2 / 3, 1 / 3, 1 / 3, 1 / 3, 2 / 3]
     [0, 0, 0, 1 / 3, 1 / 3, 11 / 3]) = Inr (5, 2 / 11)"
  by (simp add: thedic_def min_by_value_def)

lemma pritchard_step3_departing:
  "tableau_determine_departing gauss_solve 6 pritchard_C
     \<lparr> T_B = [[1, 0, 2, 0, 0, 0], [0, 1, 1, 0, 0, 0], [0, 0, 3, 0, 0, 0], [0, 0, 0, 3, 0, 0], [0, 0, 0, 2, 1, 0], [0, 0, 0, 1, 0, 1]],
       T_x = [1 / 3, 2 / 3, 1 / 3, 1 / 3, 1 / 3, 2 / 3],
       basis_index_set = [0, Suc 0, 9, 6, 4, 5] \<rparr> 8 = Inr 5"
  by (simp add: tableau_determine_departing_def determine_departing_def as_pivoter_def
      pritchard_step3_column pritchard_step3_solve pritchard_step3_ratio)

lemma pritchard_step3_update:
  "tableau_update gauss_solve 6 pritchard_C
     \<lparr> T_B = [[1, 0, 2, 0, 0, 0], [0, 1, 1, 0, 0, 0], [0, 0, 3, 0, 0, 0], [0, 0, 0, 3, 0, 0], [0, 0, 0, 2, 1, 0], [0, 0, 0, 1, 0, 1]],
       T_x = [1 / 3, 2 / 3, 1 / 3, 1 / 3, 1 / 3, 2 / 3],
       basis_index_set = [0, Suc 0, 9, 6, 4, 5] \<rparr> 8 5
   = Inr \<lparr> T_B = [[1, 0, 2, 0, 0, 0], [0, 1, 1, 0, 0, 0], [0, 0, 3, 0, 0, 0], [0, 0, 0, 3, 0, 1], [0, 0, 0, 2, 1, 1], [0, 0, 0, 1, 0, 4]],
       T_x = [1 / 3, 2 / 3, 1 / 3, 3 / 11, 3 / 11, 2 / 11],
       basis_index_set = [0, Suc 0, 9, 6, 4, 8] \<rparr>"
  by (simp add: tableau_update_def update_def as_pivoter_def pritchard_step3_column pritchard_step3_solve
      set_column_def basis_update_def)

lemma pritchard_step4_column: "var_column 6 pritchard_C 11 = [1, 3, 2, 0, 0, 0]"
  by (simp add: var_column_def pritchard_C_def column_def)

lemma pritchard_step4_solve:
  "gauss_solve [[1, 0, 2, 0, 0, 0], [0, 1, 1, 0, 0, 0], [0, 0, 3, 0, 0, 0], [0, 0, 0, 3, 0, 1], [0, 0, 0, 2, 1, 1], [0, 0, 0, 1, 0, 4]]
     [1, 3, 2, 0, 0, 0] = Inr [- (1 / 3), 7 / 3, 2 / 3, 0, 0, 0]"
  by (simp add: gauss_solve_def Let_def scale_row_def sub_row_def mat_vec_def dot_def)

lemma pritchard_step4_ratio:
  "min_by_value (thedic exact (Suc (Suc (Suc (Suc (Suc (Suc 0)))))) [1 / 3, 2 / 3, 1 / 3, 3 / 11, 3 / 11, 2 / 11]
     [- (1 / 3), 7 / 3, 2 / 3, 0, 0, 0]) = Inr (Suc 0, 2 / 7)"
  by (simp add: thedic_def min_by_value_def)

lemma pritchard_step4_departing:
  "tableau_determine_departing gauss_solve 6 pritchard_C
     \<lparr> T_B = [[1, 0, 2, 0, 0, 0], [0, 1, 1, 0, 0, 0], [0, 0, 3, 0, 0, 0], [0, 0, 0, 3, 0, 1], [0, 0, 0, 2, 1, 1], [0, 0, 0, 1, 0, 4]],
       T_x = [1 / 3, 2 / 3, 1 / 3, 3 / 11, 3 / 11, 2 / 11],
       basis_index_set = [0, Suc 0, 9, 6, 4, 8] \<rparr> 11 = Inr (Suc 0)"
  by (simp add: tableau_determine_departing_def determine_departing_def as_pivoter_def
      pritchard_step4_column pritchard_step4_solve pritchard_step4_ratio)

lemma pritchard_step4_update:
  "tableau_update gauss_solve 6 pritchard_C
     \<lparr> T_B = [[1, 0, 2, 0, 0, 0], [0, 1, 1, 0, 0, 0], [0, 0, 3, 0, 0, 0], [0, 0, 0, 3, 0, 1], [0, 0, 0, 2, 1, 1], [0, 0, 0, 1, 0, 4]],
       T_x = [1 / 3, 2 / 3, 1 / 3, 3 / 11, 3 / 11, 2 / 11],
       basis_index_set = [0, Suc 0, 9, 6, 4, 8] \<rparr> 11 (Suc 0)
   = Inr \<lparr> T_B = [[1, 1, 2, 0, 0, 0], [0, 3, 1, 0, 0, 0], [0, 2, 3, 0, 0, 0], [0, 0, 0, 3, 0, 1], [0, 0, 0, 2, 1, 1], [0, 0, 0, 1, 0, 4]],
       T_x = [3 / 7, 2 / 7, 1 / 7, 3 / 11, 3 / 11, 2 / 11],
       basis_index_set = [0, 11, 9, 6, 4, 8] \<rparr>"
  by (simp add: tableau_update_def update_def as_pivoter_def pritchard_step4_column pritchard_step4_solve
      set_column_def basis_update_def)

lemma pritchard_step5_column: "var_column 6 pritchard_C 7 = [0, 0, 0, 2, 4, 2]"
  by (simp add: var_column_def pritchard_C_def column_def)

lemma pritchard_step5_solve:
  "gauss_solve [[1, 1, 2, 0, 0, 0], [0, 3, 1, 0, 0, 0], [0, 2, 3, 0, 0, 0], [0, 0, 0, 3, 0, 1], [0, 0, 0, 2, 1, 1], [0, 0, 0, 1, 0, 4]]
     [0, 0, 0, 2, 4, 2] = Inr [0, 0, 0, 6 / 11, 28 / 11, 4 / 11]"
  by (simp add: gauss_solve_def Let_def scale_row_def sub_row_def mat_vec_def dot_def)

lemma pritchard_step5_ratio:
  "min_by_value (thedic exact (Suc (Suc (Suc (Suc (Suc (Suc 0)))))) [3 / 7, 2 / 7, 1 / 7, 3 / 11, 3 / 11, 2 / 11]
     [0, 0, 0, 6 / 11, 28 / 11, 4 / 11]) = Inr (4, 3 / 28)"
  by (simp add: thedic_def min_by_value_def)

lemma pritchard_step5_departing:
  "tableau_determine_departing gauss_solve 6 pritchard_C
     \<lparr> T_B = [[1, 1, 2, 0, 0, 0], [0, 3, 1, 0, 0, 0], [0, 2, 3, 0, 0, 0], [0, 0, 0, 3, 0, 1], [0, 0, 0, 2, 1, 1], [0, 0, 0, 1, 0, 4]],
       T_x = [3 / 7, 2 / 7, 1 / 7, 3 / 11, 3 / 11, 2 / 11],
       basis_index_set = [0, 11, 9, 6, 4, 8] \<rparr> 7 = Inr 4"
  by (simp add: tableau_determine_departing_def determine_departing_def as_pivoter_def
      pritchard_step5_column pritchard_step5_solve pritchard_step5_ratio)

lemma pritchard_step5_update:
  "tableau_update gauss_solve 6 pritchard_C
     \<lparr> T_B = [[1, 1, 2, 0, 0, 0], [0, 3, 1, 0, 0, 0], [0, 2, 3, 0, 0, 0], [0, 0, 0, 3, 0, 1], [0, 0, 0, 2, 1, 1], [0, 0, 0, 1, 0, 4]],
       T_x = [3 / 7, 2 / 7, 1 / 7, 3 / 11, 3 / 11, 2 / 11],
       basis_index_set = [0, 11, 9, 6, 4, 8] \<rparr> 7 4
   = Inr \<lparr> T_B = [[1, 1, 2, 0, 0, 0], [0, 3, 1, 0, 0, 0], [0, 2, 3, 0, 0, 0], [0, 0, 0, 3, 2, 1], [0, 0, 0, 2, 4, 1], [0, 0, 0, 1, 2, 4]],
       T_x = [3 / 7, 2 / 7, 1 / 7, 3 / 14, 3 / 28, 1 / 7],
       basis_index_set = [0, 11, 9, 6, 7, 8] \<rparr>"
  by (simp add: tableau_update_def update_def as_pivoter_def pritchard_step5_column pritchard_step5_solve
      set_column_def basis_update_def)

lemma pritchard_step6_column: "var_column 6 pritchard_C 10 = [4, 1, 2, 0, 0, 0]"
  by (simp add: var_column_def pritchard_C_def column_def)

lemma pritchard_step6_solve:
  "gauss_solve [[1, 1, 2, 0, 0, 0], [0, 3, 1, 0, 0, 0], [0, 2, 3, 0, 0, 0], [0, 0, 0, 3, 2, 1], [0, 0, 0, 2, 4, 1], [0, 0, 0, 1, 2, 4]]
     [4, 1, 2, 0, 0, 0] = Inr [19 / 7, 1 / 7, 4 / 7, 0, 0, 0]"
  by (simp add: gauss_solve_def Let_def scale_row_def sub_row_def mat_vec_def dot_def)

lemma pritchard_step6_ratio:
  "min_by_value (thedic exact (Suc (Suc (Suc (Suc (Suc (Suc 0)))))) [3 / 7, 2 / 7, 1 / 7, 3 / 14, 3 / 28, 1 / 7]
     [19 / 7, 1 / 7, 4 / 7, 0, 0, 0]) = Inr (0, 3 / 19)"
  by (simp add: thedic_def min_by_value_def)

lemma pritchard_step6_departing:
  "tableau_determine_departing gauss_solve 6 pritchard_C
     \<lparr> T_B = [[1, 1, 2, 0, 0, 0], [0, 3, 1, 0, 0, 0], [0, 2, 3, 0, 0, 0], [0, 0, 0, 3, 2, 1], [0, 0, 0, 2, 4, 1], [0, 0, 0, 1, 2, 4]],
       T_x = [3 / 7, 2 / 7, 1 / 7, 3 / 14, 3 / 28, 1 / 7],
       basis_index_set = [0, 11, 9, 6, 7, 8] \<rparr> 10 = Inr 0"
  by (simp add: tableau_determine_departing_def determine_departing_def as_pivoter_def
      pritchard_step6_column pritchard_step6_solve pritchard_step6_ratio)

lemma pritchard_step6_update:
  "tableau_update gauss_solve 6 pritchard_C
     \<lparr> T_B = [[1, 1, 2, 0, 0, 0], [0, 3, 1, 0, 0, 0], [0, 2, 3, 0, 0, 0], [0, 0, 0, 3, 2, 1], [0, 0, 0, 2, 4, 1], [0, 0, 0, 1, 2, 4]],
       T_x = [3 / 7, 2 / 7, 1 / 7, 3 / 14, 3 / 28, 1 / 7],
       basis_index_set = [0, 11, 9, 6, 7, 8] \<rparr> 10 0
   = Inr \<lparr> T_B = [[4, 1, 2, 0, 0, 0], [1, 3, 1, 0, 0, 0], [2, 2, 3, 0, 0, 0], [0, 0, 0, 3, 2, 1], [0, 0, 0, 2, 4, 1], [0, 0, 0, 1, 2, 4]],
       T_x = [3 / 19, 5 / 19, 1 / 19, 3 / 14, 3 / 28, 1 / 7],
       basis_index_set = [10, 11, 9, 6, 7, 8] \<rparr>"
  by (simp add: tableau_update_def update_def as_pivoter_def pritchard_step6_column pritchard_step6_solve
      set_column_def basis_update_def)

lemma pritchard_C_eq:
  "C_k_l (nbi pritchard_ex) (nbj pritchard_ex) (shift (A_i_j pritchard_ex))
     (shift (B_i_j pritchard_ex)) = pritchard_C"
  by (simp add: pritchard_ex_def pritchard_C_def C_k_l_def shift_def column_def numeral_3_eq_3)

lemma pritchard_init:
  "tableau_init gauss_solve 6
   = Inr \<lparr> T_B = [[1, 0, 0, 0, 0, 0], [0, 1, 0, 0, 0, 0], [0, 0, 1, 0, 0, 0], [0, 0, 0, 1, 0, 0], [0, 0, 0, 0, 1, 0], [0, 0, 0, 0, 0, 1]],
       T_x = [1, 1, 1, 1, 1, 1],
       basis_index_set = [0, Suc 0, 2, 3, 4, 5] \<rparr>"
proof -
  have a: "diag [1, 1, 1, 1, 1, 1] = [[1, 0, 0, 0, 0, 0], [0, 1, 0, 0, 0, 0], [0, 0, 1, 0, 0, 0], [0, 0, 0, 1, 0, 0], [0, 0, 0, 0, 1, 0], [0, 0, 0, 0, 0, 1]]"
    by (simp add: diag_def)
  have b: "replicate 6 (1 :: real) = [1, 1, 1, 1, 1, 1]" by (simp add: numeral_eq_Suc)
  have c: "[0..<6] = [0, Suc 0, 2, 3, 4, 5]" by code_simp
  have d: "gauss_solve [[1, 0, 0, 0, 0, 0], [0, 1, 0, 0, 0, 0], [0, 0, 1, 0, 0, 0], [0, 0, 0, 1, 0, 0], [0, 0, 0, 0, 1, 0], [0, 0, 0, 0, 0, 1]]
      [1, 1, 1, 1, 1, 1] = Inr [1, 1, 1, 1, 1, 1]"
    by (simp add: gauss_solve_def Let_def scale_row_def sub_row_def mat_vec_def dot_def)
  show ?thesis unfolding tableau_init_def Let_def a b c d by simp
qed

lemma complements_6: "complements 6 = [6, 7, 8, 9, 10, 11, 0, 1, 2, 3, 4, 5]"
  by code_simp

lemma pritchard_tests:
  "\<not> exit_test 6 6 3 [0, Suc 0, 2, 6, 4, 5]"
  "\<not> exit_test 6 9 2 [0, Suc 0, 9, 6, 4, 5]"
  "\<not> exit_test 6 8 5 [0, Suc 0, 9, 6, 4, 8]"
  "\<not> exit_test 6 11 (Suc 0) [0, 11, 9, 6, 4, 8]"
  "\<not> exit_test 6 7 4 [0, 11, 9, 6, 7, 8]"
  "exit_test 6 10 0 [10, 11, 9, 6, 7, 8]"
  by (simp_all add: exit_test_def complements_6)

lemma pritchard_next:
  "complements 6 ! 3 = 9"
  "complements 6 ! 2 = 8"
  "complements 6 ! 5 = 11"
  "complements 6 ! (Suc 0) = 7"
  "complements 6 ! 4 = 10"
  by (simp_all add: complements_6)

lemma pritchard_loop:
  "lh_loop gauss_solve 6 pritchard_C (Suc (Suc (Suc (Suc (Suc (Suc 0))))))
     \<lparr> T_B = [[1, 0, 0, 0, 0, 0], [0, 1, 0, 0, 0, 0], [0, 0, 1, 0, 0, 0], [0, 0, 0, 1, 0, 0], [0, 0, 0, 0, 1, 0], [0, 0, 0, 0, 0, 1]],
       T_x = [1, 1, 1, 1, 1, 1],
       basis_index_set = [0, Suc 0, 2, 3, 4, 5] \<rparr> 6
   = Some (Inr \<lparr> T_B = [[4, 1, 2, 0, 0, 0], [1, 3, 1, 0, 0, 0], [2, 2, 3, 0, 0, 0], [0, 0, 0, 3, 2, 1], [0, 0, 0, 2, 4, 1], [0, 0, 0, 1, 2, 4]],
       T_x = [3 / 19, 5 / 19, 1 / 19, 3 / 14, 3 / 28, 1 / 7],
       basis_index_set = [10, 11, 9, 6, 7, 8] \<rparr>)"
  by (simp add: pritchard_step1_departing pritchard_step1_update pritchard_step2_departing pritchard_step2_update pritchard_step3_departing pritchard_step3_update pritchard_step4_departing pritchard_step4_update pritchard_step5_departing pritchard_step5_update pritchard_step6_departing pritchard_step6_update
      pritchard_tests pritchard_next)

lemma pritchard_solution:
  "tableau_solution 6 \<lparr> T_B = [[4, 1, 2, 0, 0, 0], [1, 3, 1, 0, 0, 0], [2, 2, 3, 0, 0, 0], [0, 0, 0, 3, 2, 1], [0, 0, 0, 2, 4, 1], [0, 0, 0, 1, 2, 4]],
       T_x = [3 / 19, 5 / 19, 1 / 19, 3 / 14, 3 / 28, 1 / 7],
       basis_index_set = [10, 11, 9, 6, 7, 8] \<rparr>
   = [3 / 14, 3 / 28, 1 / 7, 1 / 19, 3 / 19, 5 / 19]"
  by (simp add: tableau_solution_def numeral_eq_Suc)

lemma pritchard_run:
  "lemke_howson_solve gauss_solve 6 pritchard_ex
   = Some (Inr \<lparr> p_i = [6/13, 3/13, 4/13], q_j = [1/9, 1/3, 5/9], val1 = 10/9, val2 = 15/13 \<rparr>)"
proof -
  have n: "nbi pritchard_ex + nbj pritchard_ex = 6" by (simp add: pritchard_ex_def)
  have f: "(6::nat) = Suc (Suc (Suc (Suc (Suc (Suc 0)))))" by simp
  note loop = pritchard_loop [folded f]
  show ?thesis
    unfolding lemke_howson_solve_def Let_def n pritchard_C_eq pritchard_init sum.case loop
      option.case pritchard_solution
    by (simp add: pritchard_ex_def)
qed

section \<open>The Lemke-Howson solver returns an equilibrium\<close>

text \<open>
  Claim C2. The solver is in exact arithmetic. For a game of the declared shape and a
  linear solver whose answers solve their systems, whenever \<^verbatim>\<open>lemke_howson_solve\<close>
  returns, the strategies \<open>p\<close> and \<open>q\<close> it returns are mixed strategies (of lengths \<open>nbi\<close>
  and \<open>nbj\<close>, nonnegative, summing to one) that pass \<^verbatim>\<open>is_NashEq\<close> at every tolerance
  \<open>tol \<ge> 0\<close>: no pure strategy of either player pays more than the mixed one, up to
  \<open>tol\<close>. The values \<^verbatim>\<open>val1\<close> and \<^verbatim>\<open>val2\<close> it returns are the payoffs \<open>p A q\<close> and
  \<open>p B q\<close> of the two players.
\<close>

theorem lemke_howson_nash:
  assumes sol: "solves solve" and G: "game_shaped G" and tol: "0 \<le> tol"
    and run: "lemke_howson_solve solve fuel G = Some (Inr r)"
  shows "is_NashEq G (p_i r) (q_j r) tol \<and>
         length (p_i r) = nbi G \<and> list_all (\<lambda>t. 0 \<le> t) (p_i r) \<and> sum_list (p_i r) = 1 \<and>
         length (q_j r) = nbj G \<and> list_all (\<lambda>t. 0 \<le> t) (q_j r) \<and> sum_list (q_j r) = 1 \<and>
         val1 r = dot (vec_mat (nbj G) (p_i r) (A_i_j G)) (q_j r) \<and>
         val2 r = dot (vec_mat (nbj G) (p_i r) (B_i_j G)) (q_j r)"
proof -
  let ?n = "nbi G + nbj G"
  let ?C = "C_k_l (nbi G) (nbj G) (shift (A_i_j G)) (shift (B_i_j G))"
  have A: "length (A_i_j G) = nbi G" "\<forall>row\<in>set (A_i_j G). length row = nbj G"
    and B: "length (B_i_j G) = nbi G" "\<forall>row\<in>set (B_i_j G). length row = nbj G"
    and pos: "0 < ?n"
    using G by (simp_all add: game_shaped_def list_all_iff)
  have C1: "length ?C = ?n" using A(1) by (simp add: length_C_k_l)
  have C2: "\<forall>row\<in>set ?C. length row = ?n"
    using A(2) B(1) by (intro C_k_l_rows shift_rows) simp_all
  from lemke_howson_solve_Inr [OF run] obtain T0 T where
    all: "tableau_init solve ?n = Inr T0 \<and>
     lh_loop solve ?n ?C fuel T0 ?n = Some (Inr T) \<and>
     sum_list (take (nbi G) (tableau_solution ?n T)) \<noteq> 0 \<and>
     sum_list (drop (nbi G) (tableau_solution ?n T)) \<noteq> 0 \<and>
     p_i r = map (\<lambda>t. t * (1 / sum_list (take (nbi G) (tableau_solution ?n T))))
               (take (nbi G) (tableau_solution ?n T)) \<and>
     q_j r = map (\<lambda>t. t * (1 / sum_list (drop (nbi G) (tableau_solution ?n T))))
               (drop (nbi G) (tableau_solution ?n T)) \<and>
     val1 r = 1 / sum_list (drop (nbi G) (tableau_solution ?n T))
               + Min (set (concat (A_i_j G))) - 1 \<and>
     val2 r = 1 / sum_list (take (nbi G) (tableau_solution ?n T))
               + Min (set (concat (B_i_j G))) - 1"
    by (elim exE)
  note init = all [THEN conjunct1]
    and loop = all [THEN conjunct2, THEN conjunct1]
    and X = all [THEN conjunct2, THEN conjunct2, THEN conjunct1]
    and Y = all [THEN conjunct2, THEN conjunct2, THEN conjunct2, THEN conjunct1]
    and p = all [THEN conjunct2, THEN conjunct2, THEN conjunct2, THEN conjunct2, THEN conjunct1]
    and q = all [THEN conjunct2, THEN conjunct2, THEN conjunct2, THEN conjunct2, THEN conjunct2,
                 THEN conjunct1]
    and v1 = all [THEN conjunct2, THEN conjunct2, THEN conjunct2, THEN conjunct2, THEN conjunct2,
                  THEN conjunct2, THEN conjunct1]
    and v2 = all [THEN conjunct2, THEN conjunct2, THEN conjunct2, THEN conjunct2, THEN conjunct2,
                  THEN conjunct2, THEN conjunct2]
  note start = tableau_init_inv(1) [OF sol init, of ?C] tableau_init_inv(2) [OF sol init]
  have "lh_inv ?n (set [0..<?n]) ?n" using pos by (rule lh_inv_start)
  then have head: "lh_inv ?n (set (basis_index_set T0)) ?n"
    by (simp only: start(2))
  note fin = lh_loop_exit [OF sol C1 C2 loop start(1) head]
  note eq = complementary_basis_equilibrium
    [OF G fin [THEN conjunct1] fin [THEN conjunct2] X Y p q tol]
  have w1: "val1 r = dot (vec_mat (nbj G) (p_i r) (A_i_j G)) (q_j r)"
    using v1 eq(4) by (rule trans [OF _ sym])
  have w2: "val2 r = dot (vec_mat (nbj G) (p_i r) (B_i_j G)) (q_j r)"
    using v2 eq(5) by (rule trans [OF _ sym])
  show ?thesis using eq(1) eq(2) eq(3) w1 w2 by blast
qed

text \<open>
  On the game of the notebook, solved by Gauss-Jordan elimination in six pivots: the
  strategies are \<open>p = (6/13, 3/13, 4/13)\<close> and \<open>q = (1/9, 1/3, 5/9)\<close>, with values
  \<open>10/9\<close> and \<open>15/13\<close>, which the notebook prints as \<^verbatim>\<open>0.46153846, 0.23076923, 0.30769231\<close>,
  \<^verbatim>\<open>0.11111111, 0.33333333, 0.55555556\<close>, \<^verbatim>\<open>1.1111111111111112\<close> and
  \<^verbatim>\<open>1.1538461538461537\<close>.
\<close>

theorem lemke_howson_nash_witness:
  "solves gauss_solve \<and> game_shaped pritchard_ex \<and> (0 :: real) \<le> 1 / 100000 \<and>
   lemke_howson_solve gauss_solve 6 pritchard_ex
     = Some (Inr \<lparr> p_i = [6/13, 3/13, 4/13], q_j = [1/9, 1/3, 5/9],
                    val1 = 10/9, val2 = 15/13 \<rparr>) \<and>
   is_NashEq pritchard_ex [6/13, 3/13, 4/13] [1/9, 1/3, 5/9] (1 / 100000) \<and>
   sum_list [6/13, 3/13, 4/13 :: real] = 1 \<and> sum_list [1/9, 1/3, 5/9 :: real] = 1 \<and>
   dot (vec_mat (nbj pritchard_ex) [6/13, 3/13, 4/13] (A_i_j pritchard_ex)) [1/9, 1/3, 5/9]
     = 10/9 \<and>
   dot (vec_mat (nbj pritchard_ex) [6/13, 3/13, 4/13] (B_i_j pritchard_ex)) [1/9, 1/3, 5/9]
     = 15/13"
proof -
  have t: "(0 :: real) \<le> 1 / 100000" by simp
  note th = lemke_howson_nash [OF solves_gauss_solve pritchard_shaped t pritchard_run]
  have n: "is_NashEq pritchard_ex [6/13, 3/13, 4/13] [1/9, 1/3, 5/9] (1 / 100000)"
    using th [THEN conjunct1] by (simp only: lh_result.simps)
  have v1: "dot (vec_mat (nbj pritchard_ex) [6/13, 3/13, 4/13] (A_i_j pritchard_ex))
              [1/9, 1/3, 5/9] = 10/9"
    using th by (simp only: lh_result.simps)
  have v2: "dot (vec_mat (nbj pritchard_ex) [6/13, 3/13, 4/13] (B_i_j pritchard_ex))
              [1/9, 1/3, 5/9] = 15/13"
    using th by (simp only: lh_result.simps)
  have s: "sum_list [6/13, 3/13, 4/13 :: real] = 1" "sum_list [1/9, 1/3, 5/9 :: real] = 1"
    using th by (simp_all only: lh_result.simps)
  show ?thesis
    using solves_gauss_solve pritchard_shaped t pritchard_run n s v1 v2 by (intro conjI)
qed

end
